theory Spec2Isabelle
  imports Complex_Main
begin

section \<open>Shared vocabulary\<close>

text \<open>
  The client talks to a hosted backend through awaited calls that settle with a
  \<open>{data, error}\<close> object. The backend itself is not part of the repository, so
  its answers are inputs of the model, and every call the client issues is
  appended to a trace of requests (\<open>sent\<close>), in the order of the source.

  A JavaScript exception value is an \<open>exn\<close> with an optional \<open>message\<close>. A
  synchronous function either returns or throws; an \<open>async\<close> function ends in a
  promise that is fulfilled with a value or rejected with the thrown value.
  An exception never rolls state back, so every result is paired with the state
  reached.
\<close>

datatype exn = Exn (message: "string option")

datatype sync_result = Returned | Threw exn

datatype 'a promise = Fulfilled 'a | Rejected exn

datatype role = Citizen | Institution | Admin

datatype status = Open | In_progress | Resolved

datatype IssueCategory = Traffic | Environment | Economy | Living | Damage | Heritage

text \<open>\<open>e.message || fallback\<close>: a missing or empty message is falsy.\<close>

definition message_or :: "exn \<Rightarrow> string \<Rightarrow> string" where
  "message_or e fallback =
     (case message e of None \<Rightarrow> fallback | Some m \<Rightarrow> if m = [] then fallback else m)"

text \<open>\<open>s || null\<close> on an optional string.\<close>

definition or_null :: "string option \<Rightarrow> string option" where
  "or_null v = (case v of None \<Rightarrow> None | Some m \<Rightarrow> if m = [] then None else Some m)"

section \<open>src/lib/services/auth.ts\<close>

subsection \<open>Data\<close>

record User =
  perdorues_id :: nat
  emri :: string
  email :: string
  roli :: role
  leveli :: int
  pike_eksperience :: int
  auth_id :: "string option"
  profile_pic_url :: "string option"
  krijuar_me :: "string option"

text \<open>The object \<open>signUp\<close> inserts into table \<open>perdoruesit\<close>.\<close>

record perdoruesit_insert =
  ins_emri :: string
  ins_email :: string
  ins_password_hash :: string
  ins_roli :: role
  ins_leveli :: int
  ins_pike_eksperience :: int
  ins_krijuar_me :: string


text \<open>The record \<open>updateIssueStatus\<close> inserts into the audit table \<open>ndryshimet\<close>.\<close>

record ndryshimet_insert =
  audit_issue_id :: string
  audit_perdorues_id :: nat
  audit_action :: string
  audit_old_value :: "status option"
  audit_new_value :: status
  audit_created_at :: string

text \<open>Every call to the backend that the modelled functions make.\<close>

datatype request =
    InsertPerdoruesit perdoruesit_insert
  | SelectPikeEksperience nat
  | UpdatePerdoruesit nat int int
  | SelectIssues
  | UpdateIssuesStatus string status
  | InsertNdryshimet ndryshimet_insert
  | RpcToggleLike string nat
  | DeleteLike string nat
  | InsertLike string nat
  | CountLikes string

subsection \<open>XP ledger\<close>

text \<open>
  \<open>Math.floor(xp / 50) + 1\<close>; on integers \<open>div\<close> rounds towards minus infinity,
  as \<open>Math.floor\<close> of the quotient does. The source computes on IEEE doubles, the
  model on unbounded integers. The two agree on the integers a double holds exactly,
  those of absolute value below \<open>2 ^ 53\<close>: there the quotient is below \<open>2 ^ 48\<close>, so
  its rounding error is at most \<open>2 ^ -6\<close>, less than the \<open>1 / 50\<close> that separates an
  inexact quotient from the next integer, and the product and the difference of
  \<open>getXPToNextLevel\<close> are integers a double holds exactly. Beyond that range the source
  rounds (at \<open>xp = 10 ^ 21\<close> it returns 0) and the model does not follow it.
\<close>

definition calculateLevel :: "int \<Rightarrow> int" where
  "calculateLevel xp = xp div 50 + 1"

definition getXPToNextLevel :: "int \<Rightarrow> int" where
  "getXPToNextLevel xp =
     (let nextLevel = calculateLevel xp + 1;
          nextLevelXP = (nextLevel - 1) * 50
      in nextLevelXP - xp)"

subsection \<open>Notification bus\<close>

text \<open>
  \<open>levelUpListeners\<close> and \<open>xpChangeListeners\<close> are module variables holding
  references to array objects. \<open>push\<close> mutates the object a variable refers to;
  \<open>filter\<close> builds a new object and the variable is reassigned to it. A
  \<open>for ... of\<close> loop keeps the object it started on and reads its length again
  at every step. The model therefore has a store of array objects (\<open>arrays\<close>,
  by address, \<open>fresh\<close> the next unused address) and the two variables hold
  addresses.

  A listener is a function value, compared by identity (\<open>l !== listener\<close>): a
  \<open>lid\<close>. What a listener does when it is called is given by a \<open>behaviour\<close>: a
  finite list of bus operations, run in order, ended early by a \<open>Throw\<close>.
  \<open>Unsubscribe c l\<close> calls the closure that \<open>subscribeTo...\<close> returned for \<open>l\<close>.

  \<open>published\<close> records the calls of \<open>notifyLevelUp\<close> and \<open>notifyXPChange\<close>,
  \<open>delivered\<close> the calls of listeners, both in order.
\<close>

type_synonym lid = nat

datatype channel = LevelUp | XPChange

datatype event = LevelUpEvent int string | XPChangeEvent int string

datatype action = Subscribe channel lid | Unsubscribe channel lid | Throw exn

type_synonym behaviour = "lid \<Rightarrow> event \<Rightarrow> action list"

record auth_module =
  user :: "User option"
  lastCongratulatedLevel :: "nat \<rightharpoonup> int"
  arrays :: "nat \<Rightarrow> lid list"
  fresh :: nat
  levelUpListeners :: nat
  xpChangeListeners :: nat
  published :: "event list"
  delivered :: "(lid \<times> event) list"
  sent :: "request list"

text \<open>The module right after it is loaded: two empty arrays, no user.\<close>

definition initial_auth_module :: auth_module where
  "initial_auth_module =
     \<lparr>user = None, lastCongratulatedLevel = Map.empty, arrays = (\<lambda>_. []), fresh = 2,
      levelUpListeners = 0, xpChangeListeners = 1, published = [], delivered = [],
      sent = []\<rparr>"

definition subscribeToLevelUp :: "lid \<Rightarrow> auth_module \<Rightarrow> auth_module" where
  "subscribeToLevelUp listener s =
     s\<lparr>arrays := (arrays s)(levelUpListeners s := arrays s (levelUpListeners s) @ [listener])\<rparr>"

definition unsubscribeFromLevelUp :: "lid \<Rightarrow> auth_module \<Rightarrow> auth_module" where
  "unsubscribeFromLevelUp listener s =
     s\<lparr>arrays := (arrays s)(fresh s := filter (\<lambda>l. l \<noteq> listener) (arrays s (levelUpListeners s))),
       levelUpListeners := fresh s,
       fresh := Suc (fresh s)\<rparr>"

definition subscribeToXPChange :: "lid \<Rightarrow> auth_module \<Rightarrow> auth_module" where
  "subscribeToXPChange listener s =
     s\<lparr>arrays := (arrays s)(xpChangeListeners s := arrays s (xpChangeListeners s) @ [listener])\<rparr>"

definition unsubscribeFromXPChange :: "lid \<Rightarrow> auth_module \<Rightarrow> auth_module" where
  "unsubscribeFromXPChange listener s =
     s\<lparr>arrays := (arrays s)(fresh s := filter (\<lambda>l. l \<noteq> listener) (arrays s (xpChangeListeners s))),
       xpChangeListeners := fresh s,
       fresh := Suc (fresh s)\<rparr>"

fun run_actions :: "action list \<Rightarrow> auth_module \<Rightarrow> sync_result \<times> auth_module" where
  "run_actions [] s = (Returned, s)"
| "run_actions (Subscribe LevelUp l # as) s = run_actions as (subscribeToLevelUp l s)"
| "run_actions (Subscribe XPChange l # as) s = run_actions as (subscribeToXPChange l s)"
| "run_actions (Unsubscribe LevelUp l # as) s = run_actions as (unsubscribeFromLevelUp l s)"
| "run_actions (Unsubscribe XPChange l # as) s = run_actions as (unsubscribeFromXPChange l s)"
| "run_actions (Throw e # as) s = (Threw e, s)"

text \<open>\<open>listener(level, quote)\<close>: the call is logged, then the body runs.\<close>

definition call_listener :: "behaviour \<Rightarrow> lid \<Rightarrow> event \<Rightarrow> auth_module \<Rightarrow> sync_result \<times> auth_module" where
  "call_listener beh l ev s = run_actions (beh l ev) (s\<lparr>delivered := delivered s @ [(l, ev)]\<rparr>)"

text \<open>
  \<open>for (const listener of arr) listener(...)\<close> on the array object at address
  \<open>a\<close>, from index \<open>i\<close>. A listener that keeps pushing onto the array it is
  called from makes the loop run forever: the result is then \<open>None\<close>.
\<close>

partial_function (option) deliver ::
  "behaviour \<Rightarrow> nat \<Rightarrow> event \<Rightarrow> nat \<Rightarrow> auth_module \<Rightarrow> (sync_result \<times> auth_module) option" where
  "deliver beh a ev i s =
     (if i < length (arrays s a) then
        (case call_listener beh (arrays s a ! i) ev s of
           (Threw e, s') \<Rightarrow> Some (Threw e, s')
         | (Returned, s') \<Rightarrow> deliver beh a ev (Suc i) s')
      else Some (Returned, s))"

text \<open>The quote is what \<open>getRandomQuote()\<close> drew for this call.\<close>

definition notifyLevelUp ::
  "behaviour \<Rightarrow> string \<Rightarrow> int \<Rightarrow> auth_module \<Rightarrow> (sync_result \<times> auth_module) option" where
  "notifyLevelUp beh quote level s =
     deliver beh (levelUpListeners s) (LevelUpEvent level quote) 0
       (s\<lparr>published := published s @ [LevelUpEvent level quote]\<rparr>)"

definition notifyXPChange ::
  "behaviour \<Rightarrow> string \<Rightarrow> int \<Rightarrow> auth_module \<Rightarrow> (sync_result \<times> auth_module) option" where
  "notifyXPChange beh quote xp s =
     deliver beh (xpChangeListeners s) (XPChangeEvent xp quote) 0
       (s\<lparr>published := published s @ [XPChangeEvent xp quote]\<rparr>)"

subsection \<open>The store: signUp and updateUserXP\<close>



text \<open>What the backend answers to the two calls of \<open>updateUserXP\<close> (\<open>fetch_data\<close> is
  \<open>data?.pike_eksperience\<close>), and the quotes drawn by the two notifications.\<close>

record xp_env =
  fetch_data :: "int option"
  fetch_error :: "exn option"
  update_error :: "exn option"
  levelUp_quote :: string
  xpChange_quote :: string

definition updateUserXP ::
  "behaviour \<Rightarrow> xp_env \<Rightarrow> nat \<Rightarrow> int \<Rightarrow> auth_module \<Rightarrow> (unit promise \<times> auth_module) option" where
  "updateUserXP beh env userId deltaXP s0 =
     (let s1 = s0\<lparr>sent := sent s0 @ [SelectPikeEksperience userId]\<rparr> in
      case fetch_error env of
        Some e \<Rightarrow> Some (Rejected e, s1)
      | None \<Rightarrow>
         (let currentXP = (case fetch_data env of None \<Rightarrow> 0 | Some x \<Rightarrow> if x = 0 then 0 else x);
              newXP = currentXP + deltaXP;
              newLevel = calculateLevel newXP;
              s2 = s1\<lparr>sent := sent s1 @ [UpdatePerdoruesit userId newXP newLevel]\<rparr>
          in case update_error env of
               Some e \<Rightarrow> Some (Rejected e, s2)
             | None \<Rightarrow>
                (case user s2 of
                   None \<Rightarrow> Some (Fulfilled (), s2)
                 | Some u \<Rightarrow>
                    if perdorues_id u = userId then
                      (case (if (case lastCongratulatedLevel s2 userId of
                                   None \<Rightarrow> leveli u | Some m \<Rightarrow> m) < newLevel
                             then notifyLevelUp beh (levelUp_quote env) newLevel
                                    (s2\<lparr>lastCongratulatedLevel :=
                                          (lastCongratulatedLevel s2)(userId \<mapsto> newLevel)\<rparr>)
                             else Some (Returned, s2)) of
                         None \<Rightarrow> None
                       | Some (Threw e, s3) \<Rightarrow> Some (Rejected e, s3)
                       | Some (Returned, s3) \<Rightarrow>
                          (case notifyXPChange beh (xpChange_quote env) newXP
                                  (s3\<lparr>user := Some (u\<lparr>pike_eksperience := newXP,
                                                        leveli := newLevel\<rparr>)\<rparr>) of
                             None \<Rightarrow> None
                           | Some (Threw e, s4) \<Rightarrow> Some (Rejected e, s4)
                           | Some (Returned, s4) \<Rightarrow> Some (Fulfilled (), s4)))
                    else Some (Fulfilled (), s2))))"

section \<open>src/store/issues.ts\<close>

text \<open>The embedded row of the join \<open>perdoruesit:user_id(perdorues_id, emri)\<close>.\<close>

record joined_perdoruesit =
  joined_perdorues_id :: nat
  joined_emri :: string

text \<open>An issue as the cache holds it: the selected row, its joined \<open>perdoruesit\<close>
  object, and the \<open>username\<close> the store adds. Coordinates are only carried.\<close>

record Issue =
  issue_id :: string
  category :: IssueCategory
  description :: string
  latitude :: real
  longitude :: real
  status :: status
  user_id :: nat
  created_at :: string
  image_url :: "string option"
  username :: "string option"
  perdoruesit :: "joined_perdoruesit option"

record issue_store =
  issues :: "Issue list"
  loading :: bool
  error :: "string option"
  isReportingMode :: bool
  store_sent :: "request list"

record issues_response =
  issues_data :: "Issue list option"
  issues_error :: "exn option"

text \<open>The body of the \<open>try\<close> block of \<open>fetchIssues\<close>: a \<open>throw\<close> inside it
  ends it with \<open>Threw\<close> and the state reached.\<close>

definition fetchIssues_body :: "issues_response \<Rightarrow> issue_store \<Rightarrow> sync_result \<times> issue_store" where
  "fetchIssues_body resp s =
     (let s1 = s\<lparr>store_sent := store_sent s @ [SelectIssues]\<rparr> in
      case issues_error resp of
        Some e \<Rightarrow> (Threw e, s1)
      | None \<Rightarrow>
         (let issuesWithUsername =
                map (\<lambda>issue. issue\<lparr>username :=
                        (case perdoruesit issue of
                           None \<Rightarrow> None
                         | Some p \<Rightarrow> or_null (Some (joined_emri p)))\<rparr>)
                    (case issues_data resp of None \<Rightarrow> [] | Some d \<Rightarrow> d)
          in (Returned, s1\<lparr>issues := issuesWithUsername, loading := False\<rparr>)))"

text \<open>The whole function: the two \<open>set\<close> calls around the block, and its \<open>catch\<close>.\<close>

definition fetchIssues :: "issues_response \<Rightarrow> issue_store \<Rightarrow> unit promise \<times> issue_store" where
  "fetchIssues resp s0 =
     (case fetchIssues_body resp (s0\<lparr>loading := True, error := None\<rparr>) of
        (Returned, s1) \<Rightarrow> (Fulfilled (), s1)
      | (Threw e, s1) \<Rightarrow>
          (Fulfilled (),
           s1\<lparr>error := Some (message_or e ''Failed to fetch issues''), loading := False\<rparr>))"

text \<open>What \<open>updateIssueStatus\<close> reads from outside the store: the signed-in user
  (\<open>useAuthStore.getState().user\<close>), the backend's answer to the update, and the
  clock.\<close>

record updateStatus_env =
  acting_user :: "User option"
  status_update_error :: "exn option"
  audit_now :: string

text \<open>The body of the \<open>try\<close> block of \<open>updateIssueStatus\<close>. The answer to the
  audit insert is not looked at.\<close>

definition updateIssueStatus_body ::
  "updateStatus_env \<Rightarrow> string \<Rightarrow> status \<Rightarrow> issue_store \<Rightarrow> sync_result \<times> issue_store" where
  "updateIssueStatus_body env issueId newStatus s =
     (let oldIssue = find (\<lambda>issue. issue_id issue = issueId) (issues s);
          oldStatus = map_option status oldIssue;
          s1 = s\<lparr>store_sent := store_sent s @ [UpdateIssuesStatus issueId newStatus]\<rparr>
      in case status_update_error env of
           Some e \<Rightarrow> (Threw e, s1)
         | None \<Rightarrow>
            (let s2 = s1\<lparr>issues := map (\<lambda>issue. if issue_id issue = issueId
                                                  then issue\<lparr>status := newStatus\<rparr>
                                                  else issue) (issues s1),
                          loading := False\<rparr>
             in case acting_user env of
                  None \<Rightarrow> (Returned, s2)
                | Some u \<Rightarrow>
                    if roli u = Institution then
                      (Returned, s2\<lparr>store_sent := store_sent s2 @
                         [InsertNdryshimet
                            \<lparr>audit_issue_id = issueId, audit_perdorues_id = perdorues_id u,
                             audit_action = ''status_update'', audit_old_value = oldStatus,
                             audit_new_value = newStatus,
                             audit_created_at = audit_now env\<rparr>]\<rparr>)
                    else (Returned, s2)))"

definition updateIssueStatus ::
  "updateStatus_env \<Rightarrow> string \<Rightarrow> status \<Rightarrow> issue_store \<Rightarrow> unit promise \<times> issue_store" where
  "updateIssueStatus env issueId newStatus s0 =
     (case updateIssueStatus_body env issueId newStatus (s0\<lparr>loading := True, error := None\<rparr>) of
        (Returned, s1) \<Rightarrow> (Fulfilled (), s1)
      | (Threw e, s1) \<Rightarrow>
          (Fulfilled (),
           s1\<lparr>error := Some (message_or e ''Failed to update issue status''),
              loading := False\<rparr>))"

section \<open>src/components/LikeButton.tsx and src/components/IssueDetailModal.tsx\<close>

text \<open>
  The like state both components keep with \<open>useState\<close>. \<open>toasts\<close> records the calls
  of \<open>toast.error\<close>, \<open>reported\<close> the counts passed to the parent's callback
  (\<open>onUpdate\<close>, \<open>onLikeUpdate\<close>) when one was given, \<open>like_sent\<close> the requests.
\<close>

record like_state =
  likeCount :: int
  isLiked :: bool
  isLoading :: bool
  toasts :: "string list"
  reported :: "int list"
  like_sent :: "request list"

text \<open>The answer of \<open>supabase.rpc('toggle_like', ...)\<close>: rows \<open>{like_count, liked}\<close>.\<close>

record toggle_response =
  toggle_data :: "(int \<times> bool) list option"
  toggle_error :: "exn option"

text \<open>The body of the \<open>try\<close> block of \<open>handleLike\<close> in the button.\<close>

definition LikeButton_handleLike_body ::
  "User \<Rightarrow> string \<Rightarrow> toggle_response \<Rightarrow> like_state \<Rightarrow> sync_result \<times> like_state" where
  "LikeButton_handleLike_body u issueId resp s =
     (let s1 = s\<lparr>like_sent := like_sent s @ [RpcToggleLike issueId (perdorues_id u)]\<rparr> in
      case toggle_error resp of
        Some e \<Rightarrow> (Threw e, s1)
      | None \<Rightarrow>
         (case toggle_data resp of
            Some (row # rows) \<Rightarrow>
              (Returned, s1\<lparr>likeCount := fst row, isLiked := snd row,
                             reported := reported s1 @ [fst row]\<rparr>)
          | _ \<Rightarrow> (Returned, s1)))"

text \<open>The guard \<open>!user?.perdorues_id\<close> holds without a user and for a falsy id (0); then
  the \<open>catch\<close> and \<open>finally\<close> blocks.\<close>

definition LikeButton_handleLike ::
  "User option \<Rightarrow> string \<Rightarrow> toggle_response \<Rightarrow> like_state \<Rightarrow> unit promise \<times> like_state" where
  "LikeButton_handleLike usr issueId resp s0 =
     (let not_logged_in =
            (Fulfilled (), s0\<lparr>toasts := toasts s0 @ [''Please log in to like issues'']\<rparr>)
      in case usr of
           None \<Rightarrow> not_logged_in
         | Some u \<Rightarrow>
            if perdorues_id u = 0 then not_logged_in
            else
              (case LikeButton_handleLike_body u issueId resp (s0\<lparr>isLoading := True\<rparr>) of
                 (Returned, s1) \<Rightarrow> (Fulfilled (), s1\<lparr>isLoading := False\<rparr>)
               | (Threw e, s1) \<Rightarrow>
                   (Fulfilled (),
                    s1\<lparr>toasts := toasts s1 @ [''Failed to update like. Please try again.''],
                       isLoading := False\<rparr>)))"

text \<open>What the backend answers to the calls of \<open>handleLike\<close> in the modal, and to the
  XP award it triggers.\<close>

record modal_like_env =
  delete_error :: "exn option"
  insert_error :: "exn option"
  count_value :: "int option"
  count_error :: "exn option"
  award_env :: xp_env

text \<open>The body of the \<open>try\<close> block of \<open>handleLike\<close> in the modal. \<open>toUUID\<close> only
  formats the key of the requests and is a parameter; \<open>count || 0\<close> is written out.\<close>

definition IssueDetailModal_handleLike_body ::
  "behaviour \<Rightarrow> modal_like_env \<Rightarrow> (string \<Rightarrow> string) \<Rightarrow> User \<Rightarrow> Issue \<Rightarrow>
     like_state \<Rightarrow> auth_module \<Rightarrow> (sync_result \<times> like_state \<times> auth_module) option" where
  "IssueDetailModal_handleLike_body beh env toUUID u issue s0 a0 =
     (let s1 = s0\<lparr>isLoading := True\<rparr>;
          issueId = toUUID (issue_id issue)
      in case (if isLiked s1 then
                 (let s2 = s1\<lparr>like_sent := like_sent s1 @
                                  [DeleteLike issueId (perdorues_id u)]\<rparr>
                  in case delete_error env of
                       Some e \<Rightarrow> Some (Threw e, s2, a0)
                     | None \<Rightarrow> Some (Returned, s2\<lparr>isLiked := False\<rparr>, a0))
               else
                 (let s2 = s1\<lparr>like_sent := like_sent s1 @
                                  [InsertLike issueId (perdorues_id u)]\<rparr>
                  in case insert_error env of
                       Some e \<Rightarrow> Some (Threw e, s2, a0)
                     | None \<Rightarrow>
                        (case updateUserXP beh (award_env env) (perdorues_id u) 5 a0 of
                           None \<Rightarrow> None
                         | Some (Rejected e, a1) \<Rightarrow> Some (Threw e, s2\<lparr>isLiked := True\<rparr>, a1)
                         | Some (Fulfilled v, a1) \<Rightarrow> Some (Returned, s2\<lparr>isLiked := True\<rparr>, a1)))) of
           None \<Rightarrow> None
         | Some (Threw e, s3, a1) \<Rightarrow> Some (Threw e, s3, a1)
         | Some (Returned, s3, a1) \<Rightarrow>
            (let s4 = s3\<lparr>like_sent := like_sent s3 @ [CountLikes issueId]\<rparr> in
             case count_error env of
               Some e \<Rightarrow> Some (Threw e, s4, a1)
             | None \<Rightarrow>
                (let newCount = (case count_value env of
                                   None \<Rightarrow> 0 | Some c \<Rightarrow> if c = 0 then 0 else c)
                 in Some (Returned,
                          s4\<lparr>likeCount := newCount, reported := reported s4 @ [newCount]\<rparr>,
                          a1))))"

text \<open>The guard \<open>!user?.perdorues_id || !issue\<close> returns at once; then the \<open>catch\<close> and
  \<open>finally\<close> blocks.\<close>

definition IssueDetailModal_handleLike ::
  "behaviour \<Rightarrow> modal_like_env \<Rightarrow> (string \<Rightarrow> string) \<Rightarrow> User option \<Rightarrow> Issue option \<Rightarrow>
     like_state \<Rightarrow> auth_module \<Rightarrow> (unit promise \<times> like_state \<times> auth_module) option" where
  "IssueDetailModal_handleLike beh env toUUID usr issue_prop s0 a0 =
     (case (usr, issue_prop) of
        (Some u, Some issue) \<Rightarrow>
          if perdorues_id u = 0 then Some (Fulfilled (), s0, a0)
          else
            (case IssueDetailModal_handleLike_body beh env toUUID u issue s0 a0 of
               None \<Rightarrow> None
             | Some (Returned, s1, a1) \<Rightarrow> Some (Fulfilled (), s1\<lparr>isLoading := False\<rparr>, a1)
             | Some (Threw e, s1, a1) \<Rightarrow>
                 Some (Fulfilled (),
                       s1\<lparr>toasts := toasts s1 @
                              [message_or e ''Failed to update like. Please try again.''],
                          isLoading := False\<rparr>, a1))
      | _ \<Rightarrow> Some (Fulfilled (), s0, a0))"

section \<open>Vocabulary of the properties\<close>

subsection \<open>Notification bus\<close>

text \<open>The two variables refer to different array objects, both allocated. This holds
  when the module is loaded and is kept by every operation.\<close>

definition bus_wf :: "auth_module \<Rightarrow> bool" where
  "bus_wf s \<longleftrightarrow> levelUpListeners s \<noteq> xpChangeListeners s \<and>
     levelUpListeners s < fresh s \<and> xpChangeListeners s < fresh s"

fun chan_var :: "channel \<Rightarrow> auth_module \<Rightarrow> nat" where
  "chan_var LevelUp s = levelUpListeners s"
| "chan_var XPChange s = xpChangeListeners s"

fun other :: "channel \<Rightarrow> channel" where
  "other LevelUp = XPChange"
| "other XPChange = LevelUp"

text \<open>The channel an event is published on.\<close>

fun event_channel :: "event \<Rightarrow> channel" where
  "event_channel (LevelUpEvent l q) = LevelUp"
| "event_channel (XPChangeEvent x q) = XPChange"

text \<open>An operation of a listener disturbs the delivery on channel \<open>c\<close> when it throws or
  pushes a listener onto the array of \<open>c\<close>.\<close>

fun disturbs :: "channel \<Rightarrow> action \<Rightarrow> bool" where
  "disturbs c (Subscribe c' l) = (c' = c)"
| "disturbs c (Unsubscribe c' l) = False"
| "disturbs c (Throw e) = True"

text \<open>The operations the listeners \<open>ls\<close> perform for the event, in the order of \<open>ls\<close>.\<close>

definition operations :: "behaviour \<Rightarrow> event \<Rightarrow> lid list \<Rightarrow> action list" where
  "operations beh ev ls = concat (map (\<lambda>l. beh l ev) ls)"

text \<open>An operation touches channel \<open>c\<close> when it throws, or subscribes to \<open>c\<close> or
  unsubscribes from \<open>c\<close>; operations are inert on \<open>c\<close> when none touches it.\<close>

fun touches :: "channel \<Rightarrow> action \<Rightarrow> bool" where
  "touches c (Subscribe c' l) = (c' = c)"
| "touches c (Unsubscribe c' l) = (c' = c)"
| "touches c (Throw e) = True"

definition inert :: "channel \<Rightarrow> action list \<Rightarrow> bool" where
  "inert c as = list_all (\<lambda>x. \<not> touches c x) as"

text \<open>An unsubscribe on \<open>c\<close> reassigns the variable of \<open>c\<close>: from then on the array being
  iterated is detached from it. \<open>d\<close> says whether that had happened before.\<close>

fun detached_after :: "channel \<Rightarrow> bool \<Rightarrow> action list \<Rightarrow> bool" where
  "detached_after c d [] = d"
| "detached_after c d (Subscribe c' l # as) = detached_after c d as"
| "detached_after c d (Unsubscribe c' l # as) = detached_after c (d \<or> c' = c) as"
| "detached_after c d (Throw e # as) = detached_after c d as"

text \<open>Operations are harmless to the delivery on \<open>c\<close> when none throws and every subscribe
  to \<open>c\<close> comes after an unsubscribe on \<open>c\<close>, so that it pushes onto the new array.\<close>

fun harmless :: "channel \<Rightarrow> bool \<Rightarrow> action list \<Rightarrow> bool" where
  "harmless c d [] = True"
| "harmless c d (Subscribe c' l # as) = ((c' = c \<longrightarrow> d) \<and> harmless c d as)"
| "harmless c d (Unsubscribe c' l # as) = harmless c (d \<or> c' = c) as"
| "harmless c d (Throw e # as) = False"

text \<open>The exception a listener body ends with, if it throws.\<close>

fun thrown :: "action list \<Rightarrow> exn option" where
  "thrown [] = None"
| "thrown (Throw e # as) = Some e"
| "thrown (a # as) = thrown as"

subsection \<open>XP awards\<close>

text \<open>The values \<open>updateUserXP\<close> binds to \<open>newXP\<close> and \<open>newLevel\<close>.\<close>

definition newXP_of :: "xp_env \<Rightarrow> int \<Rightarrow> int" where
  "newXP_of env deltaXP =
     (case fetch_data env of None \<Rightarrow> 0 | Some x \<Rightarrow> if x = 0 then 0 else x) + deltaXP"

definition newLevel_of :: "xp_env \<Rightarrow> int \<Rightarrow> int" where
  "newLevel_of env deltaXP = calculateLevel (newXP_of env deltaXP)"

text \<open>The mark the new level is compared with: \<open>lastCongratulatedLevel[userId] ?? user.leveli\<close>.\<close>

definition mark_or_level :: "auth_module \<Rightarrow> nat \<Rightarrow> User \<Rightarrow> int" where
  "mark_or_level s userId u =
     (case lastCongratulatedLevel s userId of None \<Rightarrow> leveli u | Some m \<Rightarrow> m)"

text \<open>What a call added to the traces.\<close>

definition new_events :: "auth_module \<Rightarrow> auth_module \<Rightarrow> event list" where
  "new_events s s' = drop (length (published s)) (published s')"


fun is_levelUp :: "event \<Rightarrow> bool" where
  "is_levelUp (LevelUpEvent l q) = True"
| "is_levelUp (XPChangeEvent x q) = False"

fun is_xpChange :: "event \<Rightarrow> bool" where
  "is_xpChange (LevelUpEvent l q) = False"
| "is_xpChange (XPChangeEvent x q) = True"

fun levelUp_levels :: "event list \<Rightarrow> int list" where
  "levelUp_levels [] = []"
| "levelUp_levels (LevelUpEvent l q # es) = l # levelUp_levels es"
| "levelUp_levels (XPChangeEvent x q # es) = levelUp_levels es"

definition targets_current_user :: "auth_module \<Rightarrow> nat \<Rightarrow> bool" where
  "targets_current_user s userId =
     (case user s of None \<Rightarrow> False | Some u \<Rightarrow> perdorues_id u = userId)"


text \<open>A session: awards for one identity, each awaited before the next, all of them
  fulfilled.\<close>

fun awards :: "behaviour \<Rightarrow> nat \<Rightarrow> (xp_env \<times> int) list \<Rightarrow> auth_module \<Rightarrow> auth_module option" where
  "awards beh userId [] s = Some s"
| "awards beh userId ((env, deltaXP) # rest) s =
     (case updateUserXP beh env userId deltaXP s of
        Some (Fulfilled v, s') \<Rightarrow> awards beh userId rest s'
      | _ \<Rightarrow> None)"

definition is_audit_insert :: "request \<Rightarrow> bool" where
  "is_audit_insert req = (case req of InsertNdryshimet a \<Rightarrow> True | _ \<Rightarrow> False)"

subsection \<open>Concrete inputs\<close>

definition demo_user :: User where
  "demo_user =
     \<lparr>perdorues_id = 7, emri = ''Jane'', email = ''jane@example.com'', roli = Citizen,
      leveli = 3, pike_eksperience = 100, auth_id = None, profile_pic_url = None,
      krijuar_me = None\<rparr>"

definition demo_module :: auth_module where
  "demo_module =
     subscribeToXPChange 2 (subscribeToLevelUp 3 (subscribeToLevelUp 1
       (initial_auth_module\<lparr>user := Some demo_user\<rparr>)))"

definition demo_env :: "int \<Rightarrow> xp_env" where
  "demo_env xp =
     \<lparr>fetch_data = Some xp, fetch_error = None, update_error = None,
      levelUp_quote = ''Level up your impact!'',
      xpChange_quote = ''Every interaction counts!''\<rparr>"

definition silent :: behaviour where
  "silent l ev = []"

definition demo_after1 :: auth_module where
  "demo_after1 = demo_module
     \<lparr>user := Some (demo_user\<lparr>pike_eksperience := 200, leveli := 5\<rparr>),
      lastCongratulatedLevel := [7 \<mapsto> 5],
      published := [LevelUpEvent 5 ''Level up your impact!'',
                    XPChangeEvent 200 ''Every interaction counts!''],
      delivered := [(1, LevelUpEvent 5 ''Level up your impact!''),
                    (3, LevelUpEvent 5 ''Level up your impact!''),
                    (2, XPChangeEvent 200 ''Every interaction counts!'')],
      sent := [SelectPikeEksperience 7, UpdatePerdoruesit 7 200 5]\<rparr>"

definition demo_after2 :: auth_module where
  "demo_after2 = demo_after1
     \<lparr>user := Some (demo_user\<lparr>pike_eksperience := 210, leveli := 5\<rparr>),
      published := published demo_after1 @ [XPChangeEvent 210 ''Every interaction counts!''],
      delivered := delivered demo_after1 @ [(2, XPChangeEvent 210 ''Every interaction counts!'')],
      sent := sent demo_after1 @ [SelectPikeEksperience 7, UpdatePerdoruesit 7 210 5]\<rparr>"


text \<open>Listener 1 subscribes listener 2 to the channel it is called on.\<close>

definition late_subscriber :: behaviour where
  "late_subscriber l ev = (if l = 1 then [Subscribe LevelUp 2] else [])"

text \<open>Listeners 1 and 2 unsubscribe somebody from their own channel and only then
  subscribe listener 9 to it.\<close>

definition swap_sub :: behaviour where
  "swap_sub l ev = (if l = 1 then [Unsubscribe LevelUp 3, Subscribe LevelUp 9]
                    else if l = 2 then [Unsubscribe XPChange 2, Subscribe XPChange 9]
                    else [])"

text \<open>Listeners 1 and 2 subscribe a new listener to their own channel while it is still
  attached; listener 1 leaves afterwards.\<close>

definition joiner :: behaviour where
  "joiner l ev = (if l = 1 then [Unsubscribe XPChange 2, Subscribe LevelUp 9, Unsubscribe LevelUp 1]
                  else if l = 2 then [Subscribe XPChange 8]
                  else [])"

text \<open>Listener 1 throws.\<close>

definition thrower :: behaviour where
  "thrower l ev = (if l = 1 then [Throw (Exn (Some ''boom''))] else [])"

text \<open>Listener 1 unsubscribes a listener of the other channel, listener 3 leaves and throws.\<close>

definition failing :: behaviour where
  "failing l ev = (if l = 1 then [Unsubscribe XPChange 2]
                   else if l = 3 then [Unsubscribe LevelUp 3, Throw (Exn (Some ''boom''))]
                   else [])"

definition demo_issue :: "string \<Rightarrow> Issue" where
  "demo_issue i =
     \<lparr>issue_id = i, category = Damage, description = ''Broken street light'',
      latitude = 42, longitude = 21, status = Open, user_id = 7,
      created_at = ''2025-01-01T00:00:00.000Z'', image_url = None,
      username = Some ''Jane'',
      perdoruesit = Some \<lparr>joined_perdorues_id = 7, joined_emri = ''Jane''\<rparr>\<rparr>"

definition demo_store :: issue_store where
  "demo_store =
     \<lparr>issues = [demo_issue ''A'', demo_issue ''B''], loading = False, error = None,
      isReportingMode = False, store_sent = []\<rparr>"

definition demo_status_env :: "exn option \<Rightarrow> updateStatus_env" where
  "demo_status_env err =
     \<lparr>acting_user = Some (demo_user\<lparr>roli := Institution\<rparr>), status_update_error = err,
      audit_now = ''2025-01-02T00:00:00.000Z''\<rparr>"

text \<open>The modal believes the issue is liked, while the backend has no like of this user
  (the count it answers is 0).\<close>

definition stale_liked :: like_state where
  "stale_liked =
     \<lparr>likeCount = 0, isLiked = True, isLoading = False, toasts = [], reported = [],
      like_sent = []\<rparr>"

definition demo_like_env :: modal_like_env where
  "demo_like_env =
     \<lparr>delete_error = None, insert_error = None, count_value = Some 0, count_error = None,
      award_env = demo_env 100\<rparr>"

section \<open>Unfolding the concrete inputs\<close>

lemmas demo_defs = demo_module_def demo_user_def demo_env_def silent_def
  initial_auth_module_def subscribeToLevelUp_def subscribeToXPChange_def
  unsubscribeFromLevelUp_def unsubscribeFromXPChange_def

lemmas eval_defs = updateUserXP_def notifyLevelUp_def notifyXPChange_def deliver.simps
  call_listener_def calculateLevel_def Let_def

section \<open>Properties of the XP ledger\<close>

lemma getXPToNextLevel_eq: "getXPToNextLevel xp = 50 - xp mod 50"
proof -
  have "xp div 50 * 50 = xp - xp mod 50"
    by (simp add: minus_mod_eq_div_mult)
  then show ?thesis
    unfolding getXPToNextLevel_def calculateLevel_def Let_def
    by (simp add: algebra_simps)
qed

text \<open>
  C4, as the specification states it, fails: at the level boundary \<open>xp = 50\<close> the
  function returns 50, not 0.
\<close>

theorem getXPToNextLevel_boundary_counterexample:
  "(50::int) mod 50 = 0 \<and> getXPToNextLevel 50 = 50 \<and> getXPToNextLevel 50 \<noteq> 0"
  by (simp add: getXPToNextLevel_eq)

text \<open>
  C4 (amended): for every non-negative integer \<open>xp\<close> below \<open>2 ^ 53\<close> (the integers a
  JavaScript number holds exactly), \<open>getXPToNextLevel xp\<close> lies between 1 and 50, so it
  is never negative and never 0; it is 50 if and only if \<open>xp\<close> is an exact multiple of
  50, that is exactly at a level boundary.
\<close>

theorem getXPToNextLevel_range:
  assumes "0 \<le> xp" and "xp < 2 ^ 53"
  shows "1 \<le> getXPToNextLevel xp \<and> getXPToNextLevel xp \<le> 50 \<and>
         (getXPToNextLevel xp = 50 \<longleftrightarrow> xp mod 50 = 0)"
proof -
  have "0 \<le> xp mod 50" and "xp mod 50 < 50" by simp_all
  then show ?thesis unfolding getXPToNextLevel_eq by auto
qed

text \<open>At 120 points, 30 are missing to level 4.\<close>

theorem getXPToNextLevel_range_witness:
  "(0::int) \<le> 120 \<and> (120::int) < 2 ^ 53 \<and> getXPToNextLevel 120 = 30 \<and> 1 \<le> getXPToNextLevel 120 \<and>
   getXPToNextLevel 120 \<le> 50 \<and> (getXPToNextLevel 120 = 50 \<longleftrightarrow> (120::int) mod 50 = 0)"
  using getXPToNextLevel_range [of 120] by (simp add: getXPToNextLevel_eq)

section \<open>Properties of the notification bus\<close>

subsection \<open>What listeners cannot touch\<close>

lemma run_actions_frame:
  "run_actions as s = (r, s') \<Longrightarrow>
     user s' = user s \<and> lastCongratulatedLevel s' = lastCongratulatedLevel s \<and>
     published s' = published s \<and> sent s' = sent s \<and> delivered s' = delivered s"
  by (induction as s rule: run_actions.induct)
     (auto simp: subscribeToLevelUp_def subscribeToXPChange_def
        unsubscribeFromLevelUp_def unsubscribeFromXPChange_def)

lemma run_actions_wf:
  "run_actions as s = (r, s') \<Longrightarrow> bus_wf s \<Longrightarrow> bus_wf s'"
  by (induction as s rule: run_actions.induct)
     (auto simp: subscribeToLevelUp_def subscribeToXPChange_def
        unsubscribeFromLevelUp_def unsubscribeFromXPChange_def bus_wf_def)

lemma run_actions_thrown:
  "fst (run_actions as s) = (case thrown as of None \<Rightarrow> Returned | Some e \<Rightarrow> Threw e)"
  by (induction as s rule: run_actions.induct) auto

lemma run_actions_quiet:
  assumes "\<forall>x \<in> set as. \<not> disturbs c x" and "a < fresh s" and "chan_var (other c) s \<noteq> a"
  shows "\<exists>s'. run_actions as s = (Returned, s') \<and> arrays s' a = arrays s a \<and>
               a < fresh s' \<and> chan_var (other c) s' \<noteq> a"
  using assms
proof (induction as s rule: run_actions.induct)
  case (1 s)
  then show ?case by simp
next
  case (2 l as s)
  then show ?case by (cases c) (auto simp: subscribeToLevelUp_def)
next
  case (3 l as s)
  then show ?case by (cases c) (auto simp: subscribeToXPChange_def)
next
  case (4 l as s)
  then show ?case by (cases c) (auto simp: unsubscribeFromLevelUp_def)
next
  case (5 l as s)
  then show ?case by (cases c) (auto simp: unsubscribeFromXPChange_def)
next
  case (6 e as s)
  then show ?case by simp
qed

lemma call_listener_frame:
  "call_listener beh l ev s = (r, s') \<Longrightarrow>
     user s' = user s \<and> lastCongratulatedLevel s' = lastCongratulatedLevel s \<and>
     published s' = published s \<and> sent s' = sent s \<and>
     delivered s' = delivered s @ [(l, ev)]"
  unfolding call_listener_def by (drule run_actions_frame) simp

lemma call_listener_wf:
  "call_listener beh l ev s = (r, s') \<Longrightarrow> bus_wf s \<Longrightarrow> bus_wf s'"
  unfolding call_listener_def by (drule run_actions_wf) (simp_all add: bus_wf_def)

lemma call_listener_quiet:
  assumes "\<forall>x \<in> set (beh l ev). \<not> disturbs c x" and "a < fresh s"
    and "chan_var (other c) s \<noteq> a"
  shows "\<exists>s'. call_listener beh l ev s = (Returned, s') \<and> arrays s' a = arrays s a \<and>
               a < fresh s' \<and> chan_var (other c) s' \<noteq> a \<and>
               delivered s' = delivered s @ [(l, ev)]"
proof -
  let ?s0 = "s\<lparr>delivered := delivered s @ [(l, ev)]\<rparr>"
  have "a < fresh ?s0" and "chan_var (other c) ?s0 \<noteq> a"
    using assms(2,3) by (cases c; simp)+
  from run_actions_quiet [OF assms(1) this]
  obtain s' where s': "run_actions (beh l ev) ?s0 = (Returned, s')"
    "arrays s' a = arrays ?s0 a" "a < fresh s'" "chan_var (other c) s' \<noteq> a"
    by blast
  from run_actions_frame [OF s'(1)] have "delivered s' = delivered s @ [(l, ev)]"
    by simp
  with s' show ?thesis by (simp add: call_listener_def)
qed

lemma call_listener_thrown:
  "thrown (beh l ev) = Some e \<Longrightarrow>
     \<exists>s'. call_listener beh l ev s = (Threw e, s') \<and> delivered s' = delivered s @ [(l, ev)]"
proof -
  assume t: "thrown (beh l ev) = Some e"
  obtain r s' where rs: "call_listener beh l ev s = (r, s')" by (cases "call_listener beh l ev s")
  have "fst (call_listener beh l ev s) = Threw e"
    unfolding call_listener_def by (simp add: run_actions_thrown t)
  with rs have "r = Threw e" by simp
  with rs call_listener_frame [OF rs] show ?thesis by simp
qed

text \<open>The module starts well-formed, and subscribing or unsubscribing keeps it so.\<close>

lemma bus_wf_initial: "bus_wf initial_auth_module"
  by (simp add: bus_wf_def initial_auth_module_def)

lemma bus_wf_subscribe:
  assumes "bus_wf s"
  shows "bus_wf (subscribeToLevelUp l s)" and "bus_wf (subscribeToXPChange l s)"
    and "bus_wf (unsubscribeFromLevelUp l s)" and "bus_wf (unsubscribeFromXPChange l s)"
  using assms
  by (simp_all add: bus_wf_def subscribeToLevelUp_def subscribeToXPChange_def
      unsubscribeFromLevelUp_def unsubscribeFromXPChange_def)

subsection \<open>The delivery loop\<close>

text \<open>Whenever the loop ends, it has changed neither the user, the marks, the trace of
  published events nor the requests.\<close>

lemma deliver_frame_raw:
  "deliver beh a ev i s = Some y \<Longrightarrow>
     user (snd y) = user s \<and> lastCongratulatedLevel (snd y) = lastCongratulatedLevel s \<and>
     published (snd y) = published s \<and> sent (snd y) = sent s \<and>
     (bus_wf s \<longrightarrow> bus_wf (snd y))"
proof (induction rule: deliver.raw_induct [rotated 1, consumes 1])
  case (1 deliver' beh a ev i s y)
  show ?case
  proof (cases "i < length (arrays s a)")
    case False
    with 1(2) show ?thesis by auto
  next
    case True
    obtain r1 s1 where c: "call_listener beh (arrays s a ! i) ev s = (r1, s1)"
      by (cases "call_listener beh (arrays s a ! i) ev s")
    note f = call_listener_frame [OF c] call_listener_wf [OF c]
    show ?thesis
    proof (cases r1)
      case Returned
      with 1(2) True c have "deliver' beh a ev (Suc i) s1 = Some y" by simp
      from 1(1) [OF this] f show ?thesis by simp
    next
      case (Threw e)
      with 1(2) True c f show ?thesis by auto
    qed
  qed
qed

lemma deliver_frame:
  assumes "deliver beh a ev i s = Some (r, s')"
  shows "user s' = user s" and "lastCongratulatedLevel s' = lastCongratulatedLevel s"
    and "published s' = published s" and "sent s' = sent s"
    and "bus_wf s \<Longrightarrow> bus_wf s'"
  using deliver_frame_raw [OF assms] by simp_all

text \<open>Listeners that neither throw nor push onto the array being iterated leave that
  array as it is, so the loop ends after one call for each remaining index.\<close>

lemma deliver_quiet:
  assumes "\<forall>l \<in> set (drop i (arrays s a)). \<forall>x \<in> set (beh l ev). \<not> disturbs c x"
    and "a < fresh s" and "chan_var (other c) s \<noteq> a"
  shows "\<exists>s'. deliver beh a ev i s = Some (Returned, s') \<and>
               delivered s' = delivered s @ map (\<lambda>l. (l, ev)) (drop i (arrays s a))"
  using assms
proof (induction "length (arrays s a) - i" arbitrary: i s)
  case 0
  then have "\<not> i < length (arrays s a)" by simp
  then show ?case by (subst deliver.simps) simp
next
  case (Suc n)
  then have lt: "i < length (arrays s a)" by simp
  let ?l = "arrays s a ! i"
  have d: "drop i (arrays s a) = ?l # drop (Suc i) (arrays s a)"
    using lt by (simp add: Cons_nth_drop_Suc)
  have "\<forall>x \<in> set (beh ?l ev). \<not> disturbs c x" using Suc.prems(1) d by simp
  from call_listener_quiet [of beh ?l ev c a s, OF this Suc.prems(2,3)]
  obtain s1 where s1: "call_listener beh ?l ev s = (Returned, s1)"
    "arrays s1 a = arrays s a" "a < fresh s1" "chan_var (other c) s1 \<noteq> a"
    "delivered s1 = delivered s @ [(?l, ev)]" by blast
  have "n = length (arrays s1 a) - Suc i" using Suc.hyps(2) s1(2) by simp
  moreover have "\<forall>l \<in> set (drop (Suc i) (arrays s1 a)). \<forall>x \<in> set (beh l ev). \<not> disturbs c x"
    using Suc.prems(1) d s1(2) by simp
  ultimately obtain s' where s': "deliver beh a ev (Suc i) s1 = Some (Returned, s')"
    "delivered s' = delivered s1 @ map (\<lambda>l. (l, ev)) (drop (Suc i) (arrays s1 a))"
    using Suc.hyps(1) s1(3,4) by blast
  have "deliver beh a ev i s = Some (Returned, s')"
    by (subst deliver.simps) (simp add: lt s1(1) s'(1))
  with s'(2) s1(2,5) d show ?case by simp
qed

text \<open>The loop stops at the first listener that throws.\<close>

lemma deliver_throw:
  assumes "drop i (arrays s a) = pre @ l # post"
    and "\<forall>l \<in> set pre. \<forall>x \<in> set (beh l ev). \<not> disturbs c x"
    and "thrown (beh l ev) = Some e"
    and "a < fresh s" and "chan_var (other c) s \<noteq> a"
  shows "\<exists>s'. deliver beh a ev i s = Some (Threw e, s') \<and>
               delivered s' = delivered s @ map (\<lambda>l. (l, ev)) (pre @ [l])"
  using assms
proof (induction pre arbitrary: i s)
  case Nil
  then have lt: "i < length (arrays s a)"
    by (metis drop_eq_Nil2 list.distinct(1) append_Nil not_le)
  have "arrays s a ! i = l" using Nil.prems(1) lt
    by (metis append_Nil nth_via_drop)
  moreover from call_listener_thrown [of beh l ev e s, OF Nil.prems(3)]
  obtain s' where "call_listener beh l ev s = (Threw e, s')"
    "delivered s' = delivered s @ [(l, ev)]" by blast
  ultimately have "deliver beh a ev i s = Some (Threw e, s')"
    by (subst deliver.simps) (simp add: lt)
  then show ?case using \<open>delivered s' = delivered s @ [(l, ev)]\<close> by simp
next
  case (Cons p pre)
  then have lt: "i < length (arrays s a)"
    by (metis drop_eq_Nil2 list.distinct(1) append_Cons not_le)
  have p: "arrays s a ! i = p" using Cons.prems(1) lt
    by (metis append_Cons nth_via_drop)
  have d: "drop (Suc i) (arrays s a) = pre @ l # post"
    using Cons.prems(1) by (metis append_Cons drop_Suc list.sel(3) tl_drop)
  have "\<forall>x \<in> set (beh p ev). \<not> disturbs c x" using Cons.prems(2) by simp
  from call_listener_quiet [of beh p ev c a s, OF this Cons.prems(4,5)]
  obtain s1 where s1: "call_listener beh p ev s = (Returned, s1)"
    "arrays s1 a = arrays s a" "a < fresh s1" "chan_var (other c) s1 \<noteq> a"
    "delivered s1 = delivered s @ [(p, ev)]" by blast
  have "drop (Suc i) (arrays s1 a) = pre @ l # post" using d s1(2) by simp
  moreover have "\<forall>l \<in> set pre. \<forall>x \<in> set (beh l ev). \<not> disturbs c x"
    using Cons.prems(2) by simp
  ultimately obtain s' where s': "deliver beh a ev (Suc i) s1 = Some (Threw e, s')"
    "delivered s' = delivered s1 @ map (\<lambda>l. (l, ev)) (pre @ [l])"
    using Cons.IH Cons.prems(3) s1(3,4) by blast
  have "deliver beh a ev i s = Some (Threw e, s')"
    by (subst deliver.simps) (simp add: lt p s1(1) s'(1))
  with s'(2) s1(5) show ?case by simp
qed

text \<open>Operations that are harmless, or inert, leave the array being iterated as it is.\<close>

lemma harmless_append:
  "harmless c d (xs @ ys) \<longleftrightarrow> harmless c d xs \<and> harmless c (detached_after c d xs) ys"
  by (induction c d xs rule: harmless.induct) simp_all

lemma quiet_harmless:
  "\<forall>x \<in> set as. \<not> disturbs c x \<Longrightarrow> harmless c d as"
proof (induction as arbitrary: d)
  case Nil
  then show ?case by simp
next
  case (Cons x as)
  then show ?case by (cases x) simp_all
qed

lemma inert_append: "inert c (xs @ ys) \<longleftrightarrow> inert c xs \<and> inert c ys"
  by (simp add: inert_def)

lemma operations_Cons: "operations beh ev (l # ls) = beh l ev @ operations beh ev ls"
  by (simp add: operations_def)

lemma operations_Nil: "operations beh ev [] = []"
  by (simp add: operations_def)

lemma run_actions_append:
  "run_actions (xs @ ys) s =
     (case run_actions xs s of (Returned, s') \<Rightarrow> run_actions ys s' | (Threw e, s') \<Rightarrow> (Threw e, s'))"
  by (induction xs s rule: run_actions.induct) simp_all

lemma run_actions_harmless:
  assumes "harmless c d as" and "a < fresh s" and "chan_var (other c) s \<noteq> a"
    and "d \<longrightarrow> chan_var c s \<noteq> a"
  shows "\<exists>s'. run_actions as s = (Returned, s') \<and> arrays s' a = arrays s a \<and>
               a < fresh s' \<and> chan_var (other c) s' \<noteq> a \<and>
               (detached_after c d as \<longrightarrow> chan_var c s' \<noteq> a)"
  using assms
proof (induction as s arbitrary: d rule: run_actions.induct)
  case (1 s)
  then show ?case by simp
next
  case (2 l as s)
  have "harmless c d as" using 2(2) by simp
  moreover have "a < fresh (subscribeToLevelUp l s)"
    "chan_var (other c) (subscribeToLevelUp l s) \<noteq> a"
    "d \<longrightarrow> chan_var c (subscribeToLevelUp l s) \<noteq> a"
    using 2(3-5) by (cases c; simp add: subscribeToLevelUp_def)+
  ultimately obtain s' where s': "run_actions as (subscribeToLevelUp l s) = (Returned, s')"
    "arrays s' a = arrays (subscribeToLevelUp l s) a" "a < fresh s'"
    "chan_var (other c) s' \<noteq> a" "detached_after c d as \<longrightarrow> chan_var c s' \<noteq> a"
    using 2(1) by blast
  have "arrays (subscribeToLevelUp l s) a = arrays s a"
    using 2(2-5) by (cases c) (auto simp: subscribeToLevelUp_def)
  with s' show ?case by simp
next
  case (3 l as s)
  have "harmless c d as" using 3(2) by simp
  moreover have "a < fresh (subscribeToXPChange l s)"
    "chan_var (other c) (subscribeToXPChange l s) \<noteq> a"
    "d \<longrightarrow> chan_var c (subscribeToXPChange l s) \<noteq> a"
    using 3(3-5) by (cases c; simp add: subscribeToXPChange_def)+
  ultimately obtain s' where s': "run_actions as (subscribeToXPChange l s) = (Returned, s')"
    "arrays s' a = arrays (subscribeToXPChange l s) a" "a < fresh s'"
    "chan_var (other c) s' \<noteq> a" "detached_after c d as \<longrightarrow> chan_var c s' \<noteq> a"
    using 3(1) by blast
  have "arrays (subscribeToXPChange l s) a = arrays s a"
    using 3(2-5) by (cases c) (auto simp: subscribeToXPChange_def)
  with s' show ?case by simp
next
  case (4 l as s)
  let ?d = "d \<or> LevelUp = c"
  have "harmless c ?d as" using 4(2) by simp
  moreover have "a < fresh (unsubscribeFromLevelUp l s)"
    "chan_var (other c) (unsubscribeFromLevelUp l s) \<noteq> a"
    "?d \<longrightarrow> chan_var c (unsubscribeFromLevelUp l s) \<noteq> a"
    using 4(3-5) by (cases c; simp add: unsubscribeFromLevelUp_def)+
  ultimately obtain s' where s': "run_actions as (unsubscribeFromLevelUp l s) = (Returned, s')"
    "arrays s' a = arrays (unsubscribeFromLevelUp l s) a" "a < fresh s'"
    "chan_var (other c) s' \<noteq> a" "detached_after c ?d as \<longrightarrow> chan_var c s' \<noteq> a"
    using 4(1) by blast
  have "arrays (unsubscribeFromLevelUp l s) a = arrays s a"
    using 4(3) by (simp add: unsubscribeFromLevelUp_def)
  with s' show ?case by simp
next
  case (5 l as s)
  let ?d = "d \<or> XPChange = c"
  have "harmless c ?d as" using 5(2) by simp
  moreover have "a < fresh (unsubscribeFromXPChange l s)"
    "chan_var (other c) (unsubscribeFromXPChange l s) \<noteq> a"
    "?d \<longrightarrow> chan_var c (unsubscribeFromXPChange l s) \<noteq> a"
    using 5(3-5) by (cases c; simp add: unsubscribeFromXPChange_def)+
  ultimately obtain s' where s': "run_actions as (unsubscribeFromXPChange l s) = (Returned, s')"
    "arrays s' a = arrays (unsubscribeFromXPChange l s) a" "a < fresh s'"
    "chan_var (other c) s' \<noteq> a" "detached_after c ?d as \<longrightarrow> chan_var c s' \<noteq> a"
    using 5(1) by blast
  have "arrays (unsubscribeFromXPChange l s) a = arrays s a"
    using 5(3) by (simp add: unsubscribeFromXPChange_def)
  with s' show ?case by simp
next
  case (6 e as s)
  then show ?case by simp
qed

lemma run_actions_inert:
  assumes "inert c as" and "a < fresh s" and "chan_var (other c) s \<noteq> a"
    and "chan_var c s = a"
  shows "\<exists>s'. run_actions as s = (Returned, s') \<and> arrays s' a = arrays s a \<and>
               a < fresh s' \<and> chan_var (other c) s' \<noteq> a \<and> chan_var c s' = a"
  using assms
proof (induction as s rule: run_actions.induct)
  case (1 s)
  then show ?case by simp
next
  case (2 l as s)
  then show ?case by (cases c) (auto simp: subscribeToLevelUp_def inert_def)
next
  case (3 l as s)
  then show ?case by (cases c) (auto simp: subscribeToXPChange_def inert_def)
next
  case (4 l as s)
  then show ?case by (cases c) (auto simp: unsubscribeFromLevelUp_def inert_def)
next
  case (5 l as s)
  then show ?case by (cases c) (auto simp: unsubscribeFromXPChange_def inert_def)
next
  case (6 e as s)
  then show ?case by (simp add: inert_def)
qed

text \<open>A subscribe on the channel whose variable still refers to the array being iterated
  appends to that array.\<close>

lemma run_actions_push:
  assumes "chan_var c s = a" and "a < fresh s" and "chan_var (other c) s \<noteq> a"
  shows "\<exists>s1. run_actions (Subscribe c n # bs) s = run_actions bs s1 \<and>
               arrays s1 a = arrays s a @ [n] \<and> a < fresh s1 \<and>
               chan_var (other c) s1 \<noteq> a \<and> delivered s1 = delivered s"
  using assms
  by (cases c) (auto simp: subscribeToLevelUp_def subscribeToXPChange_def)

lemma call_listener_harmless:
  assumes "harmless c d (beh l ev)" and "a < fresh s" and "chan_var (other c) s \<noteq> a"
    and "d \<longrightarrow> chan_var c s \<noteq> a"
  shows "\<exists>s'. call_listener beh l ev s = (Returned, s') \<and> arrays s' a = arrays s a \<and>
               a < fresh s' \<and> chan_var (other c) s' \<noteq> a \<and>
               (detached_after c d (beh l ev) \<longrightarrow> chan_var c s' \<noteq> a) \<and>
               delivered s' = delivered s @ [(l, ev)]"
proof -
  let ?s0 = "s\<lparr>delivered := delivered s @ [(l, ev)]\<rparr>"
  have "a < fresh ?s0" and "chan_var (other c) ?s0 \<noteq> a" and "d \<longrightarrow> chan_var c ?s0 \<noteq> a"
    using assms(2-4) by (cases c; simp)+
  from run_actions_harmless [OF assms(1) this]
  obtain s' where s': "run_actions (beh l ev) ?s0 = (Returned, s')"
    "arrays s' a = arrays ?s0 a" "a < fresh s'" "chan_var (other c) s' \<noteq> a"
    "detached_after c d (beh l ev) \<longrightarrow> chan_var c s' \<noteq> a"
    by blast
  from run_actions_frame [OF s'(1)] have "delivered s' = delivered s @ [(l, ev)]"
    by simp
  with s' show ?thesis by (simp add: call_listener_def)
qed

lemma call_listener_inert:
  assumes "inert c (beh l ev)" and "a < fresh s" and "chan_var (other c) s \<noteq> a"
    and "chan_var c s = a"
  shows "\<exists>s'. call_listener beh l ev s = (Returned, s') \<and> arrays s' a = arrays s a \<and>
               a < fresh s' \<and> chan_var (other c) s' \<noteq> a \<and> chan_var c s' = a \<and>
               delivered s' = delivered s @ [(l, ev)]"
proof -
  let ?s0 = "s\<lparr>delivered := delivered s @ [(l, ev)]\<rparr>"
  have "a < fresh ?s0" and "chan_var (other c) ?s0 \<noteq> a" and "chan_var c ?s0 = a"
    using assms(2-4) by (cases c; simp)+
  from run_actions_inert [OF assms(1) this]
  obtain s' where s': "run_actions (beh l ev) ?s0 = (Returned, s')"
    "arrays s' a = arrays ?s0 a" "a < fresh s'" "chan_var (other c) s' \<noteq> a"
    "chan_var c s' = a"
    by blast
  from run_actions_frame [OF s'(1)] have "delivered s' = delivered s @ [(l, ev)]"
    by simp
  with s' show ?thesis by (simp add: call_listener_def)
qed

text \<open>With harmless operations the loop calls the remaining listeners of the array, once
  each.\<close>

lemma deliver_harmless:
  assumes "harmless c d (operations beh ev (drop i (arrays s a)))"
    and "a < fresh s" and "chan_var (other c) s \<noteq> a" and "d \<longrightarrow> chan_var c s \<noteq> a"
  shows "\<exists>s'. deliver beh a ev i s = Some (Returned, s') \<and>
               delivered s' = delivered s @ map (\<lambda>l. (l, ev)) (drop i (arrays s a))"
  using assms
proof (induction "length (arrays s a) - i" arbitrary: i s d)
  case 0
  then have "\<not> i < length (arrays s a)" by simp
  then show ?case by (subst deliver.simps) simp
next
  case (Suc k)
  then have lt: "i < length (arrays s a)" by simp
  let ?l = "arrays s a ! i"
  let ?d = "detached_after c d (beh ?l ev)"
  have dr: "drop i (arrays s a) = ?l # drop (Suc i) (arrays s a)"
    using lt by (simp add: Cons_nth_drop_Suc)
  from Suc.prems(1) have h: "harmless c d (beh ?l ev)"
    "harmless c ?d (operations beh ev (drop (Suc i) (arrays s a)))"
    by (simp_all add: dr operations_Cons harmless_append)
  from call_listener_harmless [of c d beh ?l ev a s, OF h(1) Suc.prems(2-4)]
  obtain s1 where s1: "call_listener beh ?l ev s = (Returned, s1)"
    "arrays s1 a = arrays s a" "a < fresh s1" "chan_var (other c) s1 \<noteq> a"
    "?d \<longrightarrow> chan_var c s1 \<noteq> a" "delivered s1 = delivered s @ [(?l, ev)]"
    by blast
  have "k = length (arrays s1 a) - Suc i" using Suc.hyps(2) s1(2) by simp
  moreover have "harmless c ?d (operations beh ev (drop (Suc i) (arrays s1 a)))"
    using h(2) s1(2) by simp
  ultimately obtain s' where s': "deliver beh a ev (Suc i) s1 = Some (Returned, s')"
    "delivered s' = delivered s1 @ map (\<lambda>l. (l, ev)) (drop (Suc i) (arrays s1 a))"
    using Suc.hyps(1) s1(3,4,5) by blast
  have "deliver beh a ev i s = Some (Returned, s')"
    by (subst deliver.simps) (simp add: lt s1(1) s'(1))
  with s'(2) s1(2,6) dr show ?case by simp
qed

text \<open>A listener pushed onto the array being iterated is called after the others.\<close>

lemma deliver_joined:
  assumes "drop i (arrays s a) = pre @ l # post"
    and "inert c (operations beh ev pre @ as)"
    and "beh l ev = as @ Subscribe c n # bs"
    and "harmless c False (bs @ operations beh ev (post @ [n]))"
    and "a < fresh s" and "chan_var (other c) s \<noteq> a" and "chan_var c s = a"
  shows "\<exists>s'. deliver beh a ev i s = Some (Returned, s') \<and>
               delivered s' = delivered s @ map (\<lambda>l. (l, ev)) (pre @ l # post @ [n])"
  using assms
proof (induction pre arbitrary: i s)
  case Nil
  then have lt: "i < length (arrays s a)"
    by (metis drop_eq_Nil2 list.distinct(1) append_Nil not_le)
  have l: "arrays s a ! i = l" using Nil.prems(1) lt
    by (metis append_Nil nth_via_drop)
  have post: "drop (Suc i) (arrays s a) = post"
    using Nil.prems(1) by (metis append_Nil drop_Suc list.sel(3) tl_drop)
  let ?s0 = "s\<lparr>delivered := delivered s @ [(l, ev)]\<rparr>"
  have i0: "a < fresh ?s0" "chan_var (other c) ?s0 \<noteq> a" "chan_var c ?s0 = a"
    using Nil.prems(5-7) by (cases c; simp)+
  have "inert c as" using Nil.prems(2) by (simp add: operations_Nil)
  from run_actions_inert [OF this i0]
  obtain s1 where s1: "run_actions as ?s0 = (Returned, s1)" "arrays s1 a = arrays ?s0 a"
    "a < fresh s1" "chan_var (other c) s1 \<noteq> a" "chan_var c s1 = a" by blast
  from run_actions_push [OF s1(5,3,4), of n bs]
  obtain s2 where s2: "run_actions (Subscribe c n # bs) s1 = run_actions bs s2"
    "arrays s2 a = arrays s1 a @ [n]" "a < fresh s2" "chan_var (other c) s2 \<noteq> a"
    "delivered s2 = delivered s1" by blast
  let ?d = "detached_after c False bs"
  from Nil.prems(4) have h: "harmless c False bs"
    "harmless c ?d (operations beh ev (post @ [n]))"
    by (simp_all add: harmless_append)
  from run_actions_harmless [OF h(1) s2(3,4)]
  obtain s3 where s3: "run_actions bs s2 = (Returned, s3)" "arrays s3 a = arrays s2 a"
    "a < fresh s3" "chan_var (other c) s3 \<noteq> a" "?d \<longrightarrow> chan_var c s3 \<noteq> a"
    by auto
  have call: "call_listener beh l ev s = (Returned, s3)"
    by (simp add: call_listener_def Nil.prems(3) run_actions_append s1(1) s2(1) s3(1))
  have d3: "delivered s3 = delivered s @ [(l, ev)]"
    using run_actions_frame [OF s1(1)] run_actions_frame [OF s3(1)] s2(5) by simp
  have arr: "arrays s3 a = arrays s a @ [n]" using s3(2) s2(2) s1(2) by simp
  then have rest: "drop (Suc i) (arrays s3 a) = post @ [n]"
    using post lt by simp
  from deliver_harmless [of c ?d beh ev "Suc i" s3 a] h(2) rest s3(3,4,5)
  obtain s' where s': "deliver beh a ev (Suc i) s3 = Some (Returned, s')"
    "delivered s' = delivered s3 @ map (\<lambda>l. (l, ev)) (post @ [n])"
    by auto
  have "deliver beh a ev i s = Some (Returned, s')"
    by (subst deliver.simps) (simp add: lt l call s'(1))
  with s'(2) d3 show ?case by simp
next
  case (Cons p pre)
  then have lt: "i < length (arrays s a)"
    by (metis drop_eq_Nil2 list.distinct(1) append_Cons not_le)
  have p: "arrays s a ! i = p" using Cons.prems(1) lt
    by (metis append_Cons nth_via_drop)
  have d: "drop (Suc i) (arrays s a) = pre @ l # post"
    using Cons.prems(1) by (metis append_Cons drop_Suc list.sel(3) tl_drop)
  from Cons.prems(2) have in1: "inert c (beh p ev)" and in2: "inert c (operations beh ev pre @ as)"
    by (simp_all add: operations_Cons inert_append)
  from call_listener_inert [of c beh p ev a s, OF in1 Cons.prems(5-7)]
  obtain s1 where s1: "call_listener beh p ev s = (Returned, s1)"
    "arrays s1 a = arrays s a" "a < fresh s1" "chan_var (other c) s1 \<noteq> a"
    "chan_var c s1 = a" "delivered s1 = delivered s @ [(p, ev)]" by blast
  have "drop (Suc i) (arrays s1 a) = pre @ l # post" using d s1(2) by simp
  from Cons.IH [OF this in2 Cons.prems(3,4) s1(3,4,5)]
  obtain s' where s': "deliver beh a ev (Suc i) s1 = Some (Returned, s')"
    "delivered s' = delivered s1 @ map (\<lambda>l. (l, ev)) (pre @ l # post @ [n])"
    by blast
  have "deliver beh a ev i s = Some (Returned, s')"
    by (subst deliver.simps) (simp add: lt p s1(1) s'(1))
  with s'(2) s1(6) show ?case by simp
qed

lemma notifyLevelUp_frame:
  assumes "notifyLevelUp beh q lvl s = Some (r, s')"
  shows "user s' = user s" and "lastCongratulatedLevel s' = lastCongratulatedLevel s"
    and "published s' = published s @ [LevelUpEvent lvl q]" and "sent s' = sent s"
    and "bus_wf s \<Longrightarrow> bus_wf s'"
  using deliver_frame [OF assms [unfolded notifyLevelUp_def]] by (simp_all add: bus_wf_def)

lemma notifyXPChange_frame:
  assumes "notifyXPChange beh q xp s = Some (r, s')"
  shows "user s' = user s" and "lastCongratulatedLevel s' = lastCongratulatedLevel s"
    and "published s' = published s @ [XPChangeEvent xp q]" and "sent s' = sent s"
    and "bus_wf s \<Longrightarrow> bus_wf s'"
  using deliver_frame [OF assms [unfolded notifyXPChange_def]] by (simp_all add: bus_wf_def)

subsection \<open>Publishing\<close>

text \<open>
  C6, as the specification states it, fails in its last part: \<open>subscribeToLevelUp\<close>
  pushes onto the very array the loop of \<open>notifyLevelUp\<close> is iterating. Listener 1 is
  the only one registered at publish time and subscribes listener 2 while it is called;
  listener 2 receives the event in flight.
\<close>

theorem notify_no_snapshot_counterexample:
  "arrays (subscribeToLevelUp 1 initial_auth_module)
      (levelUpListeners (subscribeToLevelUp 1 initial_auth_module)) = [1] \<and>
   map_option fst (notifyLevelUp late_subscriber ''Keep going'' 2
      (subscribeToLevelUp 1 initial_auth_module)) = Some Returned \<and>
   map_option (delivered \<circ> snd) (notifyLevelUp late_subscriber ''Keep going'' 2
      (subscribeToLevelUp 1 initial_auth_module)) =
     Some [(1, LevelUpEvent 2 ''Keep going''), (2, LevelUpEvent 2 ''Keep going'')]"
  by (simp add: notifyLevelUp_def deliver.simps call_listener_def late_subscriber_def
      subscribeToLevelUp_def initial_auth_module_def)

text \<open>
  C6 (amended): publishing on a channel (\<open>notifyLevelUp\<close>, \<open>notifyXPChange\<close>) calls the
  listeners of the channel's array synchronously, in index order, with the payload.
  (a) When, among the operations the registered listeners perform during the delivery,
  none throws and every subscribe to that channel comes after an unsubscribe on that
  channel in the same delivery (in particular when nobody subscribes to it), the call
  returns and exactly the listeners registered at publish time have been called, once
  each, in registration order: unsubscribing during the delivery does not change who
  receives the event in flight, and a listener subscribed after such an unsubscribe
  does not receive it. (b) There is no snapshot: when a registered listener subscribes
  a new listener to the channel and nothing before that, in the delivery, has thrown,
  subscribed to the channel or unsubscribed from it, the new listener is pushed onto
  the array being iterated and receives the event in flight, after the registered
  ones, provided the operations that follow (the rest of that listener, the later
  listeners and the new one) satisfy the condition of (a).
\<close>

theorem notify_delivers_registered_in_order:
  assumes "bus_wf s"
  shows
    "(ev = LevelUpEvent level quote \<and> arrays s (levelUpListeners s) = regd \<and>
      harmless LevelUp False (operations beh ev regd) \<longrightarrow>
        (\<exists>s'. notifyLevelUp beh quote level s = Some (Returned, s') \<and>
              delivered s' = delivered s @ map (\<lambda>l. (l, ev)) regd)) \<and>
     (ev = XPChangeEvent xp quote \<and> arrays s (xpChangeListeners s) = regd \<and>
      harmless XPChange False (operations beh ev regd) \<longrightarrow>
        (\<exists>s'. notifyXPChange beh quote xp s = Some (Returned, s') \<and>
              delivered s' = delivered s @ map (\<lambda>l. (l, ev)) regd)) \<and>
     (ev = LevelUpEvent level quote \<and> arrays s (levelUpListeners s) = pre @ l # post \<and>
      inert LevelUp (operations beh ev pre @ as) \<and>
      beh l ev = as @ Subscribe LevelUp n # bs \<and>
      harmless LevelUp False (bs @ operations beh ev (post @ [n])) \<longrightarrow>
        (\<exists>s'. notifyLevelUp beh quote level s = Some (Returned, s') \<and>
              delivered s' = delivered s @ map (\<lambda>l. (l, ev)) (pre @ l # post @ [n]))) \<and>
     (ev = XPChangeEvent xp quote \<and> arrays s (xpChangeListeners s) = pre @ l # post \<and>
      inert XPChange (operations beh ev pre @ as) \<and>
      beh l ev = as @ Subscribe XPChange n # bs \<and>
      harmless XPChange False (bs @ operations beh ev (post @ [n])) \<longrightarrow>
        (\<exists>s'. notifyXPChange beh quote xp s = Some (Returned, s') \<and>
              delivered s' = delivered s @ map (\<lambda>l. (l, ev)) (pre @ l # post @ [n])))"
proof -
  let ?s0 = "s\<lparr>published := published s @ [ev]\<rparr>"
  have lu: "levelUpListeners s < fresh ?s0" "chan_var (other LevelUp) ?s0 \<noteq> levelUpListeners s"
    "chan_var LevelUp ?s0 = levelUpListeners s"
    using assms by (simp_all add: bus_wf_def)
  have xc: "xpChangeListeners s < fresh ?s0" "chan_var (other XPChange) ?s0 \<noteq> xpChangeListeners s"
    "chan_var XPChange ?s0 = xpChangeListeners s"
    using assms by (simp_all add: bus_wf_def)
  show ?thesis
  proof (intro conjI impI)
    assume a: "ev = LevelUpEvent level quote \<and> arrays s (levelUpListeners s) = regd \<and>
      harmless LevelUp False (operations beh ev regd)"
    then have "harmless LevelUp False (operations beh ev (drop 0 (arrays ?s0 (levelUpListeners s))))"
      by auto
    from deliver_harmless [OF this lu(1,2)] a
    show "\<exists>s'. notifyLevelUp beh quote level s = Some (Returned, s') \<and>
              delivered s' = delivered s @ map (\<lambda>l. (l, ev)) regd"
      by (simp add: notifyLevelUp_def)
  next
    assume a: "ev = XPChangeEvent xp quote \<and> arrays s (xpChangeListeners s) = regd \<and>
      harmless XPChange False (operations beh ev regd)"
    then have "harmless XPChange False (operations beh ev (drop 0 (arrays ?s0 (xpChangeListeners s))))"
      by auto
    from deliver_harmless [OF this xc(1,2)] a
    show "\<exists>s'. notifyXPChange beh quote xp s = Some (Returned, s') \<and>
              delivered s' = delivered s @ map (\<lambda>l. (l, ev)) regd"
      by (simp add: notifyXPChange_def)
  next
    assume a: "ev = LevelUpEvent level quote \<and> arrays s (levelUpListeners s) = pre @ l # post \<and>
      inert LevelUp (operations beh ev pre @ as) \<and>
      beh l ev = as @ Subscribe LevelUp n # bs \<and>
      harmless LevelUp False (bs @ operations beh ev (post @ [n]))"
    then have d: "drop 0 (arrays ?s0 (levelUpListeners s)) = pre @ l # post"
      and h: "inert LevelUp (operations beh ev pre @ as)"
      "beh l ev = as @ Subscribe LevelUp n # bs"
      "harmless LevelUp False (bs @ operations beh ev (post @ [n]))"
      by auto
    from deliver_joined [OF d h lu] a
    show "\<exists>s'. notifyLevelUp beh quote level s = Some (Returned, s') \<and>
              delivered s' = delivered s @ map (\<lambda>l. (l, ev)) (pre @ l # post @ [n])"
      by (simp add: notifyLevelUp_def)
  next
    assume a: "ev = XPChangeEvent xp quote \<and> arrays s (xpChangeListeners s) = pre @ l # post \<and>
      inert XPChange (operations beh ev pre @ as) \<and>
      beh l ev = as @ Subscribe XPChange n # bs \<and>
      harmless XPChange False (bs @ operations beh ev (post @ [n]))"
    then have d: "drop 0 (arrays ?s0 (xpChangeListeners s)) = pre @ l # post"
      and h: "inert XPChange (operations beh ev pre @ as)"
      "beh l ev = as @ Subscribe XPChange n # bs"
      "harmless XPChange False (bs @ operations beh ev (post @ [n]))"
      by auto
    from deliver_joined [OF d h xc] a
    show "\<exists>s'. notifyXPChange beh quote xp s = Some (Returned, s') \<and>
              delivered s' = delivered s @ map (\<lambda>l. (l, ev)) (pre @ l # post @ [n])"
      by (simp add: notifyXPChange_def)
  qed
qed

text \<open>With \<open>swap_sub\<close> listener 9 is subscribed after an unsubscribe and is not called; with
  \<open>joiner\<close> the new listener is subscribed first and is called last.\<close>

theorem notify_delivers_registered_in_order_witness:
  "bus_wf demo_module \<and>
   arrays demo_module (levelUpListeners demo_module) = [1, 3] \<and>
   arrays demo_module (xpChangeListeners demo_module) = [2] \<and>
   harmless LevelUp False (operations swap_sub (LevelUpEvent 4 ''Keep going'') [1, 3]) \<and>
   map_option (delivered \<circ> snd) (notifyLevelUp swap_sub ''Keep going'' 4 demo_module) =
     Some [(1, LevelUpEvent 4 ''Keep going''), (3, LevelUpEvent 4 ''Keep going'')] \<and>
   harmless XPChange False (operations swap_sub (XPChangeEvent 150 ''Keep going'') [2]) \<and>
   map_option (delivered \<circ> snd) (notifyXPChange swap_sub ''Keep going'' 150 demo_module) =
     Some [(2, XPChangeEvent 150 ''Keep going'')] \<and>
   joiner 1 (LevelUpEvent 4 ''Keep going'') =
     [Unsubscribe XPChange 2] @ Subscribe LevelUp 9 # [Unsubscribe LevelUp 1] \<and>
   map_option (delivered \<circ> snd) (notifyLevelUp joiner ''Keep going'' 4 demo_module) =
     Some [(1, LevelUpEvent 4 ''Keep going''), (3, LevelUpEvent 4 ''Keep going''),
           (9, LevelUpEvent 4 ''Keep going'')] \<and>
   joiner 2 (XPChangeEvent 150 ''Keep going'') = [] @ Subscribe XPChange 8 # [] \<and>
   map_option (delivered \<circ> snd) (notifyXPChange joiner ''Keep going'' 150 demo_module) =
     Some [(2, XPChangeEvent 150 ''Keep going''), (8, XPChangeEvent 150 ''Keep going'')]"
proof -
  let ?lu = "LevelUpEvent 4 ''Keep going''" and ?xc = "XPChangeEvent 150 ''Keep going''"
  have wf: "bus_wf demo_module" by (simp add: bus_wf_def demo_defs)
  have a: "arrays demo_module (levelUpListeners demo_module) = [1, 3]"
    "arrays demo_module (xpChangeListeners demo_module) = [2]"
    "delivered demo_module = []"
    by (simp_all add: demo_defs)
  have h1: "harmless LevelUp False (operations swap_sub ?lu [1, 3])"
    and h2: "harmless XPChange False (operations swap_sub ?xc [2])"
    by (simp_all add: operations_def swap_sub_def)
  have j1: "joiner 1 ?lu = [Unsubscribe XPChange 2] @ Subscribe LevelUp 9 # [Unsubscribe LevelUp 1]"
    "inert LevelUp (operations joiner ?lu [] @ [Unsubscribe XPChange 2])"
    "harmless LevelUp False ([Unsubscribe LevelUp 1] @ operations joiner ?lu ([3] @ [9]))"
    by (simp_all add: operations_def joiner_def inert_def)
  have j2: "joiner 2 ?xc = [] @ Subscribe XPChange 8 # []"
    "inert XPChange (operations joiner ?xc [] @ [])"
    "harmless XPChange False ([] @ operations joiner ?xc ([] @ [8]))"
    by (simp_all add: operations_def joiner_def inert_def)
  note t = notify_delivers_registered_in_order [OF wf]
  from t [THEN conjunct1, rule_format,
      where ev = ?lu and level = 4 and quote = "''Keep going''" and regd = "[1, 3]"
        and beh = swap_sub] a h1
  obtain s1 where "notifyLevelUp swap_sub ''Keep going'' 4 demo_module = Some (Returned, s1)"
    "delivered s1 = [(1, ?lu), (3, ?lu)]" by auto
  then have r1: "map_option (delivered \<circ> snd)
      (notifyLevelUp swap_sub ''Keep going'' 4 demo_module) = Some [(1, ?lu), (3, ?lu)]"
    by simp
  from t [THEN conjunct2, THEN conjunct1, rule_format,
      where ev = ?xc and xp = 150 and quote = "''Keep going''" and regd = "[2]"
        and beh = swap_sub] a h2
  obtain s2 where "notifyXPChange swap_sub ''Keep going'' 150 demo_module = Some (Returned, s2)"
    "delivered s2 = [(2, ?xc)]" by auto
  then have r2: "map_option (delivered \<circ> snd)
      (notifyXPChange swap_sub ''Keep going'' 150 demo_module) = Some [(2, ?xc)]"
    by simp
  from t [THEN conjunct2, THEN conjunct2, THEN conjunct1, rule_format,
      where ev = ?lu and level = 4 and quote = "''Keep going''" and pre = "[]" and l = 1
        and post = "[3]" and as = "[Unsubscribe XPChange 2]" and n = 9
        and bs = "[Unsubscribe LevelUp 1]" and beh = joiner] a j1
  obtain s3 where "notifyLevelUp joiner ''Keep going'' 4 demo_module = Some (Returned, s3)"
    "delivered s3 = [(1, ?lu), (3, ?lu), (9, ?lu)]" by auto
  then have r3: "map_option (delivered \<circ> snd)
      (notifyLevelUp joiner ''Keep going'' 4 demo_module) = Some [(1, ?lu), (3, ?lu), (9, ?lu)]"
    by simp
  from t [THEN conjunct2, THEN conjunct2, THEN conjunct2, rule_format,
      where ev = ?xc and xp = 150 and quote = "''Keep going''" and pre = "[]" and l = 2
        and post = "[]" and as = "[]" and n = 8 and bs = "[]" and beh = joiner] a j2
  obtain s4 where "notifyXPChange joiner ''Keep going'' 150 demo_module = Some (Returned, s4)"
    "delivered s4 = [(2, ?xc), (8, ?xc)]" by auto
  then have r4: "map_option (delivered \<circ> snd)
      (notifyXPChange joiner ''Keep going'' 150 demo_module) = Some [(2, ?xc), (8, ?xc)]"
    by simp
  from wf a h1 h2 j1(1) j2(1) r1 r2 r3 r4 show ?thesis by simp
qed

text \<open>
  C7, as the specification states it, fails: the loops have no \<open>try\<close> around the call
  of a listener. Listeners 1 and 2 are registered, listener 1 throws, and listener 2 is
  never called.
\<close>

theorem notify_throw_counterexample:
  "arrays (subscribeToLevelUp 2 (subscribeToLevelUp 1 initial_auth_module))
      (levelUpListeners (subscribeToLevelUp 2 (subscribeToLevelUp 1 initial_auth_module))) =
     [1, 2] \<and>
   map_option fst (notifyLevelUp thrower ''Keep going'' 2
      (subscribeToLevelUp 2 (subscribeToLevelUp 1 initial_auth_module))) =
     Some (Threw (Exn (Some ''boom''))) \<and>
   map_option (delivered \<circ> snd) (notifyLevelUp thrower ''Keep going'' 2
      (subscribeToLevelUp 2 (subscribeToLevelUp 1 initial_auth_module))) =
     Some [(1, LevelUpEvent 2 ''Keep going'')]"
  by (simp add: notifyLevelUp_def deliver.simps call_listener_def thrower_def
      subscribeToLevelUp_def initial_auth_module_def)

text \<open>
  C7 (amended): if a listener throws during the delivery of an event, the exception
  leaves the publishing call (\<open>notifyLevelUp\<close>, \<open>notifyXPChange\<close>) and no later listener
  of that channel is called for that event; the listeners before it, as long as they
  neither throw nor subscribe to that channel, have each been called once.
\<close>

theorem notify_stops_at_throwing_listener:
  assumes "bus_wf s" and "thrown (beh l ev) = Some e"
    and "\<forall>p \<in> set pre. \<forall>x \<in> set (beh p ev). \<not> disturbs (event_channel ev) x"
  shows
    "(ev = LevelUpEvent level quote \<and> arrays s (levelUpListeners s) = pre @ l # post \<longrightarrow>
      (\<exists>s'. notifyLevelUp beh quote level s = Some (Threw e, s') \<and>
            delivered s' = delivered s @ map (\<lambda>p. (p, ev)) (pre @ [l]))) \<and>
     (ev = XPChangeEvent xp quote \<and> arrays s (xpChangeListeners s) = pre @ l # post \<longrightarrow>
      (\<exists>s'. notifyXPChange beh quote xp s = Some (Threw e, s') \<and>
            delivered s' = delivered s @ map (\<lambda>p. (p, ev)) (pre @ [l])))"
proof (intro conjI impI)
  let ?s0 = "s\<lparr>published := published s @ [ev]\<rparr>"
  assume a: "ev = LevelUpEvent level quote \<and> arrays s (levelUpListeners s) = pre @ l # post"
  then have d: "drop 0 (arrays ?s0 (levelUpListeners s)) = pre @ l # post" by simp
  have q: "\<forall>p \<in> set pre. \<forall>x \<in> set (beh p ev). \<not> disturbs LevelUp x"
    using assms(3) a by simp
  have i: "levelUpListeners s < fresh ?s0" "chan_var (other LevelUp) ?s0 \<noteq> levelUpListeners s"
    using assms(1) by (simp_all add: bus_wf_def)
  from deliver_throw [of 0 ?s0 "levelUpListeners s" pre l post beh ev LevelUp e,
      OF d q assms(2) i] a
  show "\<exists>s'. notifyLevelUp beh quote level s = Some (Threw e, s') \<and>
            delivered s' = delivered s @ map (\<lambda>p. (p, ev)) (pre @ [l])"
    by (simp add: notifyLevelUp_def)
next
  let ?s0 = "s\<lparr>published := published s @ [ev]\<rparr>"
  assume a: "ev = XPChangeEvent xp quote \<and> arrays s (xpChangeListeners s) = pre @ l # post"
  then have d: "drop 0 (arrays ?s0 (xpChangeListeners s)) = pre @ l # post" by simp
  have q: "\<forall>p \<in> set pre. \<forall>x \<in> set (beh p ev). \<not> disturbs XPChange x"
    using assms(3) a by simp
  have i: "xpChangeListeners s < fresh ?s0" "chan_var (other XPChange) ?s0 \<noteq> xpChangeListeners s"
    using assms(1) by (simp_all add: bus_wf_def)
  from deliver_throw [of 0 ?s0 "xpChangeListeners s" pre l post beh ev XPChange e,
      OF d q assms(2) i] a
  show "\<exists>s'. notifyXPChange beh quote xp s = Some (Threw e, s') \<and>
            delivered s' = delivered s @ map (\<lambda>p. (p, ev)) (pre @ [l])"
    by (simp add: notifyXPChange_def)
qed

text \<open>Of the listeners 1, 3 and 5, listener 3 throws: 1 and 3 are called, 5 is not.\<close>

theorem notify_stops_at_throwing_listener_witness:
  "bus_wf (subscribeToLevelUp 5 demo_module) \<and>
   thrown (failing 3 (LevelUpEvent 4 ''Keep going'')) = Some (Exn (Some ''boom'')) \<and>
   arrays (subscribeToLevelUp 5 demo_module)
      (levelUpListeners (subscribeToLevelUp 5 demo_module)) = [1] @ 3 # [5] \<and>
   map_option fst (notifyLevelUp failing ''Keep going'' 4 (subscribeToLevelUp 5 demo_module)) =
     Some (Threw (Exn (Some ''boom''))) \<and>
   map_option (delivered \<circ> snd)
      (notifyLevelUp failing ''Keep going'' 4 (subscribeToLevelUp 5 demo_module)) =
     Some [(1, LevelUpEvent 4 ''Keep going''), (3, LevelUpEvent 4 ''Keep going'')]"
proof -
  let ?s = "subscribeToLevelUp 5 demo_module"
  let ?ev = "LevelUpEvent 4 ''Keep going''"
  have wf: "bus_wf ?s" by (simp add: bus_wf_def demo_defs)
  have t: "thrown (failing 3 ?ev) = Some (Exn (Some ''boom''))" by (simp add: failing_def)
  have q: "\<forall>p \<in> set [1]. \<forall>x \<in> set (failing p ?ev). \<not> disturbs (event_channel ?ev) x"
    by (simp add: failing_def)
  have a: "arrays ?s (levelUpListeners ?s) = [1] @ 3 # [5]" "delivered ?s = []"
    by (simp_all add: demo_defs)
  from notify_stops_at_throwing_listener
      [where s = "?s" and beh = failing and l = 3 and ev = "?ev" and pre = "[1]"
         and e = "Exn (Some ''boom'')" and level = 4 and quote = "''Keep going''"
         and post = "[5]" and xp = 0, OF wf t q] wf t a
  show ?thesis by auto
qed

section \<open>Properties of updateUserXP and signUp\<close>

text \<open>The two early exits, and the award for somebody who is not signed in here.\<close>

lemma updateUserXP_fetch_failed:
  "fetch_error env = Some e \<Longrightarrow>
     updateUserXP beh env userId deltaXP s =
       Some (Rejected e, s\<lparr>sent := sent s @ [SelectPikeEksperience userId]\<rparr>)"
  by (simp add: updateUserXP_def)

lemma updateUserXP_update_failed:
  "fetch_error env = None \<Longrightarrow> update_error env = Some e \<Longrightarrow>
     updateUserXP beh env userId deltaXP s =
       Some (Rejected e, s\<lparr>sent := sent s @ [SelectPikeEksperience userId,
          UpdatePerdoruesit userId (newXP_of env deltaXP) (newLevel_of env deltaXP)]\<rparr>)"
  unfolding updateUserXP_def newXP_of_def newLevel_of_def Let_def by simp

lemma updateUserXP_not_current:
  "fetch_error env = None \<Longrightarrow> update_error env = None \<Longrightarrow>
   (case user s of None \<Rightarrow> True | Some u \<Rightarrow> perdorues_id u \<noteq> userId) \<Longrightarrow>
     updateUserXP beh env userId deltaXP s =
       Some (Fulfilled (), s\<lparr>sent := sent s @ [SelectPikeEksperience userId,
          UpdatePerdoruesit userId (newXP_of env deltaXP) (newLevel_of env deltaXP)]\<rparr>)"
  unfolding updateUserXP_def newXP_of_def newLevel_of_def Let_def
  by (cases "user s") simp_all

text \<open>The award for the signed-in user, once both backend calls succeeded.\<close>

lemma updateUserXP_current_raw:
  assumes ok: "fetch_error env = None" "update_error env = None"
    and u: "user s = Some u" "perdorues_id u = userId"
    and res: "updateUserXP beh env userId deltaXP s = Some (r, s')"
  defines "fired \<equiv> mark_or_level s userId u < newLevel_of env deltaXP"
  defines "lu \<equiv> (if fired then [LevelUpEvent (newLevel_of env deltaXP) (levelUp_quote env)] else [])"
  defines "u' \<equiv> u\<lparr>pike_eksperience := newXP_of env deltaXP, leveli := newLevel_of env deltaXP\<rparr>"
  defines "xpe \<equiv> XPChangeEvent (newXP_of env deltaXP) (xpChange_quote env)"
  shows "sent s' = sent s @ [SelectPikeEksperience userId,
            UpdatePerdoruesit userId (newXP_of env deltaXP) (newLevel_of env deltaXP)] \<and>
         lastCongratulatedLevel s' =
           (if fired then (lastCongratulatedLevel s)(userId \<mapsto> newLevel_of env deltaXP)
            else lastCongratulatedLevel s) \<and>
         (if r = Fulfilled () then published s' = published s @ lu @ [xpe] \<and> user s' = Some u'
          else user s' = Some u \<and> published s' = published s @ lu \<or>
               user s' = Some u' \<and> published s' = published s @ lu @ [xpe]) \<and>
         (bus_wf s \<longrightarrow> bus_wf s')"
    (is "?goal s'")
proof -
  let ?X = "newXP_of env deltaXP" and ?L = "newLevel_of env deltaXP"
  let ?s2 = "s\<lparr>sent := sent s @ [SelectPikeEksperience userId, UpdatePerdoruesit userId ?X ?L]\<rparr>"
  let ?A = "if fired
            then notifyLevelUp beh (levelUp_quote env) ?L
                   (?s2\<lparr>lastCongratulatedLevel := (lastCongratulatedLevel ?s2)(userId \<mapsto> ?L)\<rparr>)
            else Some (Returned, ?s2)"
  have unfold: "updateUserXP beh env userId deltaXP s =
      (case ?A of None \<Rightarrow> None
       | Some (Threw e, s3) \<Rightarrow> Some (Rejected e, s3)
       | Some (Returned, s3) \<Rightarrow>
          (case notifyXPChange beh (xpChange_quote env) ?X (s3\<lparr>user := Some u'\<rparr>) of
             None \<Rightarrow> None
           | Some (Threw e, s4) \<Rightarrow> Some (Rejected e, s4)
           | Some (Returned, s4) \<Rightarrow> Some (Fulfilled (), s4)))"
    unfolding updateUserXP_def newXP_of_def newLevel_of_def Let_def fired_def
      mark_or_level_def u'_def
    using ok u by simp
  from res unfold obtain r1 s3 where A: "?A = Some (r1, s3)"
    by (cases ?A) auto
  have s3: "user s3 = Some u \<and> sent s3 = sent ?s2 \<and> published s3 = published s @ lu \<and>
    lastCongratulatedLevel s3 =
       (if fired then (lastCongratulatedLevel s)(userId \<mapsto> ?L) else lastCongratulatedLevel s) \<and>
    (bus_wf s \<longrightarrow> bus_wf s3)"
  proof (cases fired)
    case True
    with A have n: "notifyLevelUp beh (levelUp_quote env) ?L
        (?s2\<lparr>lastCongratulatedLevel := (lastCongratulatedLevel ?s2)(userId \<mapsto> ?L)\<rparr>) = Some (r1, s3)"
      by simp
    from notifyLevelUp_frame [OF n] True u show ?thesis
      by (simp add: lu_def bus_wf_def)
  next
    case False
    with A u show ?thesis
      by (auto simp: lu_def bus_wf_def)
  qed
  show ?thesis
  proof (cases r1)
    case (Threw e)
    with res unfold A have "r = Rejected e" "s' = s3" by simp_all
    with s3 show ?thesis by simp
  next
    case Returned
    let ?s3' = "s3\<lparr>user := Some u'\<rparr>"
    from res unfold A Returned obtain r2 s4 where
      B: "notifyXPChange beh (xpChange_quote env) ?X ?s3' = Some (r2, s4)"
      by (cases "notifyXPChange beh (xpChange_quote env) ?X ?s3'") auto
    from res unfold A Returned B have rs: "s' = s4"
      "r = (case r2 of Returned \<Rightarrow> Fulfilled () | Threw e \<Rightarrow> Rejected e)"
      by (simp_all split: sync_result.splits)
    have wf: "bus_wf s3 \<Longrightarrow> bus_wf ?s3'" by (simp add: bus_wf_def)
    from notifyXPChange_frame [OF B] s3 rs wf
    show ?thesis by (cases r2) (simp_all add: xpe_def)
  qed
qed

lemma updateUserXP_fulfilled_ok:
  assumes "updateUserXP beh env userId deltaXP s = Some (Fulfilled v, s')"
  shows "fetch_error env = None" and "update_error env = None"
proof -
  show f: "fetch_error env = None"
    using assms updateUserXP_fetch_failed [of env _ beh userId deltaXP s]
    by (cases "fetch_error env") auto
  show "update_error env = None"
    using assms f updateUserXP_update_failed [of env _ beh userId deltaXP s]
    by (cases "update_error env") auto
qed

lemma updateUserXP_fulfilled_events:
  assumes res: "updateUserXP beh env userId deltaXP s = Some (Fulfilled (), s')"
    and u: "user s = Some u" "perdorues_id u = userId"
  shows "new_events s s' =
           (if mark_or_level s userId u < newLevel_of env deltaXP
            then [LevelUpEvent (newLevel_of env deltaXP) (levelUp_quote env)] else []) @
           [XPChangeEvent (newXP_of env deltaXP) (xpChange_quote env)]"
  using updateUserXP_current_raw [OF updateUserXP_fulfilled_ok [OF res] u res]
  by (simp add: new_events_def)

lemma updateUserXP_fulfilled_mark:
  assumes res: "updateUserXP beh env userId deltaXP s = Some (Fulfilled (), s')"
    and u: "user s = Some u" "perdorues_id u = userId"
  shows "\<exists>u'. user s' = Some u' \<and> perdorues_id u' = userId \<and>
              newLevel_of env deltaXP \<le> mark_or_level s' userId u'"
  using updateUserXP_current_raw [OF updateUserXP_fulfilled_ok [OF res] u res] u
  by (auto simp: mark_or_level_def split: option.splits)


lemma levelUp_levels_append [simp]:
  "levelUp_levels (xs @ ys) = levelUp_levels xs @ levelUp_levels ys"
  by (induction xs rule: levelUp_levels.induct) simp_all

lemma awards_Cons_Some:
  assumes "awards beh userId ((env, deltaXP) # rest) s = Some s'"
  obtains s1 where "updateUserXP beh env userId deltaXP s = Some (Fulfilled (), s1)"
    and "awards beh userId rest s1 = Some s'"
  using assms by (auto split: option.splits prod.splits promise.splits)

text \<open>In a session, the levels congratulated go strictly up, and above the mark the
  session started with when there was one.\<close>

lemma awards_levelUps:
  assumes "awards beh userId calls s = Some s'" and "user s = Some u"
    and "perdorues_id u = userId"
  shows "\<exists>evs. published s' = published s @ evs \<and> sorted_wrt (<) (levelUp_levels evs) \<and>
           (\<forall>m. lastCongratulatedLevel s userId = Some m \<longrightarrow>
                (\<forall>l \<in> set (levelUp_levels evs). m < l))"
  using assms
proof (induction calls arbitrary: s u)
  case Nil
  then show ?case by simp
next
  case (Cons call rest)
  obtain env deltaXP where call: "call = (env, deltaXP)" by (cases call)
  from Cons.prems(1) [unfolded call] obtain s1 where
    s1: "updateUserXP beh env userId deltaXP s = Some (Fulfilled (), s1)"
    and rest: "awards beh userId rest s1 = Some s'"
    by (rule awards_Cons_Some)
  let ?L = "newLevel_of env deltaXP"
  let ?u' = "u\<lparr>pike_eksperience := newXP_of env deltaXP, leveli := ?L\<rparr>"
  let ?fired = "mark_or_level s userId u < ?L"
  let ?lu = "if ?fired then [LevelUpEvent ?L (levelUp_quote env)] else []"
  note c = updateUserXP_current_raw [OF updateUserXP_fulfilled_ok [OF s1] Cons.prems(2,3) s1]
  from c have pub: "published s1 = published s @ ?lu @
      [XPChangeEvent (newXP_of env deltaXP) (xpChange_quote env)]"
    and usr: "user s1 = Some ?u'"
    and mark: "lastCongratulatedLevel s1 =
       (if ?fired then (lastCongratulatedLevel s)(userId \<mapsto> ?L) else lastCongratulatedLevel s)"
    by simp_all
  have "perdorues_id ?u' = userId" using Cons.prems(3) by simp
  from Cons.IH [OF rest usr this] obtain evs2 where
    evs2: "published s' = published s1 @ evs2" "sorted_wrt (<) (levelUp_levels evs2)"
    "\<forall>m. lastCongratulatedLevel s1 userId = Some m \<longrightarrow>
         (\<forall>l \<in> set (levelUp_levels evs2). m < l)"
    by blast
  let ?evs = "?lu @ [XPChangeEvent (newXP_of env deltaXP) (xpChange_quote env)] @ evs2"
  have p: "published s' = published s @ ?evs" using pub evs2(1) by simp
  show ?case
  proof (cases ?fired)
    case True
    with mark evs2(3) have above: "\<forall>l \<in> set (levelUp_levels evs2). ?L < l" by simp
    have lv: "levelUp_levels ?evs = ?L # levelUp_levels evs2" using True by simp
    have "sorted_wrt (<) (levelUp_levels ?evs)" using above evs2(2) lv by simp
    moreover have "\<forall>m. lastCongratulatedLevel s userId = Some m \<longrightarrow>
                (\<forall>l \<in> set (levelUp_levels ?evs). m < l)"
    proof (intro allI impI ballI)
      fix m l assume m: "lastCongratulatedLevel s userId = Some m"
        and l: "l \<in> set (levelUp_levels ?evs)"
      from m True have "m < ?L" by (simp add: mark_or_level_def)
      with l lv above show "m < l" by auto
    qed
    ultimately show ?thesis using p by blast
  next
    case False
    with mark evs2(3) have "\<forall>m. lastCongratulatedLevel s userId = Some m \<longrightarrow>
         (\<forall>l \<in> set (levelUp_levels evs2). m < l)" by simp
    moreover have "levelUp_levels ?evs = levelUp_levels evs2" using False by simp
    ultimately show ?thesis using p evs2(2) by metis
  qed
qed

text \<open>Two awards on the concrete module: 100 points at 100, then 10 points at 200.\<close>

lemma demo_award1:
  "updateUserXP silent (demo_env 100) 7 100 demo_module = Some (Fulfilled (), demo_after1)"
  by (simp add: eval_defs demo_defs demo_after1_def)

lemma demo_award2:
  "updateUserXP silent (demo_env 200) 7 10 demo_after1 = Some (Fulfilled (), demo_after2)"
  by (simp add: eval_defs demo_defs demo_after1_def demo_after2_def)




text \<open>
  C2: for awards to the signed-in identity, (1) a fulfilled award publishes a level-up
  event only when the new level exceeds the last congratulated level of the identity
  (its cached level at that moment when no mark was ever set), and then exactly one,
  for the new level, however many levels the award crossed; (2) an award that leaves
  the identity at the level the previous award of the session brought it to publishes
  none; (3) over any session of fulfilled awards the congratulated levels increase
  strictly, so no level is congratulated twice.
\<close>

theorem levelUp_at_most_once_per_level:
  assumes "user s = Some u" and "perdorues_id u = userId"
  shows
    "(updateUserXP beh env userId deltaXP s = Some (Fulfilled (), s') \<longrightarrow>
        filter is_levelUp (new_events s s') =
          (if mark_or_level s userId u < newLevel_of env deltaXP
           then [LevelUpEvent (newLevel_of env deltaXP) (levelUp_quote env)] else [])) \<and>
     (updateUserXP beh env1 userId delta1 s = Some (Fulfilled (), s1) \<and>
      updateUserXP beh env2 userId delta2 s1 = Some (Fulfilled (), s2) \<and>
      newLevel_of env2 delta2 = newLevel_of env1 delta1 \<longrightarrow>
        filter is_levelUp (new_events s1 s2) = []) \<and>
     (awards beh userId calls s = Some s3 \<longrightarrow>
        sorted_wrt (<) (levelUp_levels (new_events s s3)))"
proof (intro conjI impI)
  assume "updateUserXP beh env userId deltaXP s = Some (Fulfilled (), s')"
  from updateUserXP_fulfilled_events [OF this assms]
  show "filter is_levelUp (new_events s s') =
          (if mark_or_level s userId u < newLevel_of env deltaXP
           then [LevelUpEvent (newLevel_of env deltaXP) (levelUp_quote env)] else [])"
    by simp
next
  assume a: "updateUserXP beh env1 userId delta1 s = Some (Fulfilled (), s1) \<and>
      updateUserXP beh env2 userId delta2 s1 = Some (Fulfilled (), s2) \<and>
      newLevel_of env2 delta2 = newLevel_of env1 delta1"
  then have r1: "updateUserXP beh env1 userId delta1 s = Some (Fulfilled (), s1)"
    and r2: "updateUserXP beh env2 userId delta2 s1 = Some (Fulfilled (), s2)"
    and same: "newLevel_of env2 delta2 = newLevel_of env1 delta1" by simp_all
  from updateUserXP_fulfilled_mark [OF r1 assms] obtain u1 where
    u1: "user s1 = Some u1" "perdorues_id u1 = userId"
    "newLevel_of env1 delta1 \<le> mark_or_level s1 userId u1" by blast
  from updateUserXP_fulfilled_events [OF r2 u1(1,2)] u1(3) same
  show "filter is_levelUp (new_events s1 s2) = []" by simp
next
  assume "awards beh userId calls s = Some s3"
  from awards_levelUps [OF this assms]
  show "sorted_wrt (<) (levelUp_levels (new_events s s3))"
    by (auto simp: new_events_def)
qed

text \<open>From level 3 the first award jumps to level 5 and congratulates once, for 5; the
  second stays at 5 and congratulates nobody.\<close>

theorem levelUp_at_most_once_per_level_witness:
  "user demo_module = Some demo_user \<and> perdorues_id demo_user = 7 \<and>
   updateUserXP silent (demo_env 100) 7 100 demo_module = Some (Fulfilled (), demo_after1) \<and>
   mark_or_level demo_module 7 demo_user = 3 \<and> newLevel_of (demo_env 100) 100 = 5 \<and>
   filter is_levelUp (new_events demo_module demo_after1) =
     [LevelUpEvent 5 ''Level up your impact!''] \<and>
   updateUserXP silent (demo_env 200) 7 10 demo_after1 = Some (Fulfilled (), demo_after2) \<and>
   newLevel_of (demo_env 200) 10 = newLevel_of (demo_env 100) 100 \<and>
   filter is_levelUp (new_events demo_after1 demo_after2) = [] \<and>
   awards silent 7 [(demo_env 100, 100), (demo_env 200, 10)] demo_module = Some demo_after2 \<and>
   levelUp_levels (new_events demo_module demo_after2) = [5] \<and>
   sorted_wrt (<) (levelUp_levels (new_events demo_module demo_after2))"
proof -
  have u: "user demo_module = Some demo_user" "perdorues_id demo_user = 7"
    by (simp_all add: demo_defs)
  have run: "awards silent 7 [(demo_env 100, 100), (demo_env 200, 10)] demo_module =
      Some demo_after2"
    by (simp add: demo_award1 demo_award2)
  have lv: "mark_or_level demo_module 7 demo_user = 3" "newLevel_of (demo_env 100) 100 = 5"
    "newLevel_of (demo_env 200) 10 = newLevel_of (demo_env 100) 100"
    by (simp_all add: mark_or_level_def newLevel_of_def newXP_of_def calculateLevel_def
        demo_defs)
  have ev: "levelUp_levels (new_events demo_module demo_after2) = [5]"
    by (simp add: new_events_def demo_after2_def demo_after1_def demo_defs)
  from levelUp_at_most_once_per_level [OF u, of silent "demo_env 100" 100 demo_after1
      "demo_env 100" 100 demo_after1 "demo_env 200" 10 demo_after2
      "[(demo_env 100, 100), (demo_env 200, 10)]" demo_after2]
    u run lv ev demo_award1 demo_award2
  show ?thesis by (simp add: demo_env_def)
qed

text \<open>
  C3, as the specification states it, fails for a target other than the signed-in
  identity: the whole local part of \<open>updateUserXP\<close>, both notifications included, is
  under \<open>if (user && user.perdorues_id === userId)\<close>. Identity 7 is signed in, the award
  goes to identity 8, the call is fulfilled and nothing is published or delivered.
\<close>

theorem xpChange_other_identity_counterexample:
  "\<not> targets_current_user demo_module 8 \<and>
   map_option fst (updateUserXP silent (demo_env 40) 8 5 demo_module) = Some (Fulfilled ()) \<and>
   map_option (published \<circ> snd) (updateUserXP silent (demo_env 40) 8 5 demo_module) = Some [] \<and>
   map_option (delivered \<circ> snd) (updateUserXP silent (demo_env 40) 8 5 demo_module) = Some []"
  by (simp add: eval_defs demo_defs targets_current_user_def)

text \<open>
  C3 (amended): every fulfilled call of \<open>updateUserXP\<close> whose target is the signed-in
  identity publishes exactly one xp-change event, carrying the new XP total, whether
  or not a level-up event was published too; a fulfilled call for any other identity,
  or with nobody signed in, publishes none.
\<close>

theorem xpChange_once_per_fulfilled_award:
  assumes "updateUserXP beh env userId deltaXP s = Some (Fulfilled (), s')"
  shows "filter is_xpChange (new_events s s') =
           (if targets_current_user s userId
            then [XPChangeEvent (newXP_of env deltaXP) (xpChange_quote env)] else [])"
proof (cases "targets_current_user s userId")
  case True
  then obtain u where u: "user s = Some u" "perdorues_id u = userId"
    by (auto simp: targets_current_user_def split: option.splits)
  from updateUserXP_fulfilled_events [OF assms u] True show ?thesis by simp
next
  case False
  then have "case user s of None \<Rightarrow> True | Some u \<Rightarrow> perdorues_id u \<noteq> userId"
    by (simp add: targets_current_user_def split: option.splits)
  from updateUserXP_not_current [OF updateUserXP_fulfilled_ok [OF assms] this, of beh deltaXP]
    assms False
  show ?thesis by (auto simp: new_events_def)
qed

theorem xpChange_once_per_fulfilled_award_witness:
  "updateUserXP silent (demo_env 100) 7 100 demo_module = Some (Fulfilled (), demo_after1) \<and>
   targets_current_user demo_module 7 \<and>
   filter is_xpChange (new_events demo_module demo_after1) =
     [XPChangeEvent 200 ''Every interaction counts!'']"
proof -
  have t: "targets_current_user demo_module 7"
    by (simp add: targets_current_user_def demo_defs)
  have x: "newXP_of (demo_env 100) 100 = 200"
    "xpChange_quote (demo_env 100) = ''Every interaction counts!''"
    by (simp_all add: newXP_of_def demo_env_def)
  from xpChange_once_per_fulfilled_award [OF demo_award1] t x demo_award1
  show ?thesis by simp
qed

text \<open>
  C5: if \<open>updateUserXP\<close> fails while fetching the current XP or while persisting the
  new XP and level, the promise is rejected with that error, and the cached identity,
  the last-congratulated marks and both channels are as before: nothing is published
  and no listener is called.
\<close>

theorem updateUserXP_failure_leaves_local_state:
  assumes "fetch_error env = Some e \<or> fetch_error env = None \<and> update_error env = Some e"
  shows "\<exists>s'. updateUserXP beh env userId deltaXP s = Some (Rejected e, s') \<and>
              user s' = user s \<and> lastCongratulatedLevel s' = lastCongratulatedLevel s \<and>
              published s' = published s \<and> delivered s' = delivered s \<and>
              arrays s' = arrays s \<and> levelUpListeners s' = levelUpListeners s \<and>
              xpChangeListeners s' = xpChangeListeners s \<and> fresh s' = fresh s"
  using assms
proof
  assume "fetch_error env = Some e"
  from updateUserXP_fetch_failed [OF this, of beh userId deltaXP s] show ?thesis by simp
next
  assume "fetch_error env = None \<and> update_error env = Some e"
  then have "fetch_error env = None" "update_error env = Some e" by simp_all
  from updateUserXP_update_failed [OF this, of beh userId deltaXP s] show ?thesis by simp
qed

text \<open>The update is refused: only the trace of requests has grown.\<close>

theorem updateUserXP_failure_leaves_local_state_witness:
  "fetch_error ((demo_env 100)\<lparr>update_error := Some (Exn (Some ''permission denied''))\<rparr>) = None \<and>
   update_error ((demo_env 100)\<lparr>update_error := Some (Exn (Some ''permission denied''))\<rparr>) =
     Some (Exn (Some ''permission denied'')) \<and>
   updateUserXP silent ((demo_env 100)\<lparr>update_error := Some (Exn (Some ''permission denied''))\<rparr>)
       7 100 demo_module =
     Some (Rejected (Exn (Some ''permission denied'')),
           demo_module\<lparr>sent := [SelectPikeEksperience 7, UpdatePerdoruesit 7 200 5]\<rparr>)"
  using updateUserXP_failure_leaves_local_state
    [of "(demo_env 100)\<lparr>update_error := Some (Exn (Some ''permission denied''))\<rparr>"
        "Exn (Some ''permission denied'')" silent 7 100 demo_module]
  by (simp add: eval_defs demo_defs)

section \<open>Properties of the issue store\<close>

lemma message_or_nonempty: "fallback \<noteq> [] \<Longrightarrow> message_or e fallback \<noteq> []"
  by (simp add: message_or_def split: option.splits)

text \<open>
  C8: if \<open>fetchIssues\<close> fails, the cached issues are the ones from before (a cache of
  \<open>[A, B]\<close> stays \<open>[A, B]\<close>), a non-empty error message is recorded, and the loading
  flag is cleared.
\<close>

theorem fetchIssues_failure_keeps_cache:
  assumes "issues_error resp = Some e"
  shows "fst (fetchIssues resp s) = Fulfilled () \<and>
         issues (snd (fetchIssues resp s)) = issues s \<and>
         error (snd (fetchIssues resp s)) = Some (message_or e ''Failed to fetch issues'') \<and>
         message_or e ''Failed to fetch issues'' \<noteq> [] \<and>
         loading (snd (fetchIssues resp s)) = False"
  using assms
  by (simp add: fetchIssues_def fetchIssues_body_def Let_def message_or_nonempty)

theorem fetchIssues_failure_keeps_cache_witness:
  "issues_error \<lparr>issues_data = None, issues_error = Some (Exn (Some ''network down''))\<rparr> =
     Some (Exn (Some ''network down'')) \<and>
   issues demo_store = [demo_issue ''A'', demo_issue ''B''] \<and>
   issues (snd (fetchIssues
      \<lparr>issues_data = None, issues_error = Some (Exn (Some ''network down''))\<rparr> demo_store)) =
     [demo_issue ''A'', demo_issue ''B''] \<and>
   error (snd (fetchIssues
      \<lparr>issues_data = None, issues_error = Some (Exn (Some ''network down''))\<rparr> demo_store)) =
     Some ''network down'' \<and>
   loading (snd (fetchIssues
      \<lparr>issues_data = None, issues_error = Some (Exn (Some ''network down''))\<rparr> demo_store)) =
     False"
  using fetchIssues_failure_keeps_cache
    [of "\<lparr>issues_data = None, issues_error = Some (Exn (Some ''network down''))\<rparr>"
        "Exn (Some ''network down'')" demo_store]
  by (simp add: demo_store_def message_or_def)

text \<open>
  C10: if the server write of \<open>updateIssueStatus\<close> fails, the promise is still
  fulfilled: the error message is recorded in the store, the loading flag is cleared,
  the cached issues are unchanged and no audit record is inserted (the only request
  is the refused update). The promise ends as it does when the write succeeds, so its
  outcome alone does not tell failure from success.
\<close>

theorem updateIssueStatus_failure_resolves:
  assumes "status_update_error env = Some e"
  shows "fst (updateIssueStatus env issueId newStatus s) = Fulfilled () \<and>
         error (snd (updateIssueStatus env issueId newStatus s)) =
           Some (message_or e ''Failed to update issue status'') \<and>
         message_or e ''Failed to update issue status'' \<noteq> [] \<and>
         loading (snd (updateIssueStatus env issueId newStatus s)) = False \<and>
         issues (snd (updateIssueStatus env issueId newStatus s)) = issues s \<and>
         store_sent (snd (updateIssueStatus env issueId newStatus s)) =
           store_sent s @ [UpdateIssuesStatus issueId newStatus] \<and>
         filter is_audit_insert (store_sent (snd (updateIssueStatus env issueId newStatus s))) =
           filter is_audit_insert (store_sent s) \<and>
         fst (updateIssueStatus (env\<lparr>status_update_error := None\<rparr>) issueId newStatus s) =
           fst (updateIssueStatus env issueId newStatus s)"
proof -
  have ok: "fst (updateIssueStatus (env\<lparr>status_update_error := None\<rparr>) issueId newStatus s) =
      Fulfilled ()"
    by (simp add: updateIssueStatus_def updateIssueStatus_body_def Let_def
        split: option.splits)
  show ?thesis
    using assms ok
    by (simp add: updateIssueStatus_def updateIssueStatus_body_def Let_def
        message_or_nonempty is_audit_insert_def)
qed

text \<open>An institution resolves issue A: refused, nothing but the error changes; accepted,
  the cache and the audit table change.\<close>

theorem updateIssueStatus_failure_resolves_witness:
  "status_update_error (demo_status_env (Some (Exn (Some ''permission denied'')))) =
     Some (Exn (Some ''permission denied'')) \<and>
   updateIssueStatus (demo_status_env (Some (Exn (Some ''permission denied'')))) ''A''
       Resolved demo_store =
     (Fulfilled (),
      demo_store\<lparr>error := Some ''permission denied'',
                 store_sent := [UpdateIssuesStatus ''A'' Resolved]\<rparr>) \<and>
   fst (updateIssueStatus (demo_status_env None) ''A'' Resolved demo_store) = Fulfilled () \<and>
   map status (issues (snd (updateIssueStatus (demo_status_env None) ''A'' Resolved demo_store)))
     = [Resolved, Open] \<and>
   filter is_audit_insert
     (store_sent (snd (updateIssueStatus (demo_status_env None) ''A'' Resolved demo_store))) =
     [InsertNdryshimet \<lparr>audit_issue_id = ''A'', audit_perdorues_id = 7,
        audit_action = ''status_update'', audit_old_value = Some Open,
        audit_new_value = Resolved, audit_created_at = ''2025-01-02T00:00:00.000Z''\<rparr>]"
  using updateIssueStatus_failure_resolves
    [of "demo_status_env (Some (Exn (Some ''permission denied'')))"
        "Exn (Some ''permission denied'')" "''A''" Resolved demo_store]
  by (simp add: demo_status_env_def demo_store_def demo_issue_def demo_user_def
      updateIssueStatus_def updateIssueStatus_body_def Let_def message_or_def
      is_audit_insert_def)

section \<open>Properties of the like handlers\<close>

text \<open>The button: one request, the stored procedure, and the state is what it returned.\<close>

lemma LikeButton_handleLike_delegates:
  assumes "usr = Some u" and "perdorues_id u \<noteq> 0" and "toggle_error resp = None"
    and "toggle_data resp = Some ((n, b) # rows)"
  shows "LikeButton_handleLike usr issueId resp s =
           (Fulfilled (),
            s\<lparr>likeCount := n, isLiked := b, isLoading := False,
              reported := reported s @ [n],
              like_sent := like_sent s @ [RpcToggleLike issueId (perdorues_id u)]\<rparr>)"
  using assms
  by (simp add: LikeButton_handleLike_def LikeButton_handleLike_body_def Let_def)

text \<open>The modal: whenever the block gets through without an error, the new \<open>isLiked\<close> is
  the negation of the local one, whatever the backend holds.\<close>

lemma IssueDetailModal_handleLike_negates:
  assumes "IssueDetailModal_handleLike_body beh env toUUID u issue s a = Some (Returned, s', a')"
  shows "isLiked s' = (\<not> isLiked s)"
  using assms
  unfolding IssueDetailModal_handleLike_body_def Let_def
  by (auto split: if_splits option.splits prod.splits promise.splits sync_result.splits)

text \<open>
  C9 holds for the button and fails for \<open>handleLike\<close> of the modal. With a local
  \<open>isLiked\<close> that is true while the backend has no like of this user, the modal sends a
  delete and a count, never the stored procedure, and sets \<open>isLiked\<close> to the negation
  of its own value: the issue ends not liked with count 0, where a toggle would have
  liked it.
\<close>

theorem IssueDetailModal_handleLike_client_side:
  "IssueDetailModal_handleLike silent demo_like_env id (Some demo_user)
       (Some (demo_issue ''A'')) stale_liked demo_module =
     Some (Fulfilled (),
           stale_liked\<lparr>isLiked := False, reported := [0],
              like_sent := [DeleteLike ''A'' 7, CountLikes ''A'']\<rparr>,
           demo_module)"
  by (simp add: IssueDetailModal_handleLike_def IssueDetailModal_handleLike_body_def
      demo_user_def demo_issue_def stale_liked_def demo_like_env_def Let_def)

end
